theory Spec2Isabelle
  imports Complex_Main "HOL-Library.Multiset"
begin

section \<open>Python values and errors\<close>

text \<open>
  The payload is what \<^verbatim>\<open>response.json()\<close> returns: a tree of Python values. A dict is
  an association list read with \<open>map_of\<close>. A float carries the rational it denotes (every
  finite double is one); NaN and the infinities, which JSON does not have, are left out.
\<close>

datatype pyval =
    PNone
  | PBool bool
  | PInt int
  | PFloat rat
  | PStr string
  | PList "pyval list"
  | PDict "(string \<times> pyval) list"

text \<open>
  The exceptions the sync code can meet: a missing dict key, a value of the wrong type,
  a string that \<^verbatim>\<open>float()\<close> cannot parse, and any \<^verbatim>\<open>psycopg2.Error\<close> of a statement
  the server refuses.
\<close>

datatype error = KeyError string | TypeError | ValueError | DatabaseError

section \<open>What the repository does not hold\<close>

text \<open>
  The functions below run against a PostgreSQL server, a schema, a wall clock and Python's
  \<^verbatim>\<open>float\<close>, none of which is code of the repository. They are parameters of the model:
  \<^item> \<open>parse_float s\<close>: \<^verbatim>\<open>float(s)\<close> on a string, \<open>None\<close> where it raises ValueError;
  \<^item> \<open>to_timestamp v\<close>: the server's \<^verbatim>\<open>to_timestamp(%s)\<close> on an adapted parameter, as an
    instant, \<open>None\<close> where the server refuses the value (timestamp columns are taken
    to be NOT NULL);
  \<^item> \<open>accounts_ok\<close>, \<open>snapshots_ok\<close>, \<open>transactions_ok\<close>: whether the column types and
    constraints of the table accept the values of a statement;
  \<^item> \<open>session_date t\<close>: the calendar day (a day number) of the instant \<open>t\<close> in the
    session's time zone, which is what \<^verbatim>\<open>DATE(...)\<close> and \<^verbatim>\<open>CURRENT_DATE\<close> compute;
  \<^item> \<open>clock n\<close>: what \<^verbatim>\<open>NOW()\<close> reads in the transaction of the \<open>n\<close>-th connection
    opened since the start.
\<close>

datatype stamp =
    Column_default int  \<comment> \<open>the INSERT at this instant named no value: the schema's default\<close>
  | Now int             \<comment> \<open>\<^verbatim>\<open>NOW()\<close>, written by the DO UPDATE branch\<close>

record account =
  acct_name :: pyval
  acct_currency :: pyval
  acct_balance :: rat
  acct_available_balance :: rat
  acct_balance_date :: int
  updated_at :: stamp

record snapshot =
  snap_balance :: rat
  snap_available_balance :: rat
  snapshot_taken_at :: stamp

record txn =
  txn_account_id :: pyval
  posted :: bool
  amount :: rat
  description :: pyval
  payee :: pyval
  memo :: pyval
  transacted_at :: int
  pending :: pyval
  last_updated_at :: stamp

text \<open>
  A table is the list of its rows, each under its conflict key: \<^verbatim>\<open>accounts.id\<close>,
  \<^verbatim>\<open>(account_snapshots.account_id, balance_date)\<close> and \<^verbatim>\<open>transactions.id\<close>.
\<close>

record db =
  accounts :: "(pyval \<times> account) list"
  account_snapshots :: "((pyval \<times> int) \<times> snapshot) list"
  transactions :: "(pyval \<times> txn) list"

record env =
  parse_float :: "string \<Rightarrow> rat option"
  to_timestamp :: "pyval \<Rightarrow> int option"
  accounts_ok :: "pyval \<Rightarrow> pyval \<Rightarrow> pyval \<Rightarrow> rat \<Rightarrow> rat \<Rightarrow> int \<Rightarrow> bool"
  snapshots_ok :: "pyval \<Rightarrow> rat \<Rightarrow> rat \<Rightarrow> int \<Rightarrow> bool"
  transactions_ok ::
    "pyval \<Rightarrow> pyval \<Rightarrow> bool \<Rightarrow> rat \<Rightarrow> pyval \<Rightarrow> pyval \<Rightarrow> pyval \<Rightarrow> int \<Rightarrow> pyval \<Rightarrow> bool"
  session_date :: "int \<Rightarrow> int"
  clock :: "nat \<Rightarrow> int"

section \<open>Python helpers\<close>

text \<open>\<^verbatim>\<open>v[k]\<close> for a string key: KeyError on a dict without it, TypeError on anything else.\<close>

definition getitem :: "pyval \<Rightarrow> string \<Rightarrow> error + pyval" where
  "getitem v k =
     (case v of
        PDict d \<Rightarrow> (case map_of d k of None \<Rightarrow> Inl (KeyError k) | Some x \<Rightarrow> Inr x)
      | _ \<Rightarrow> Inl TypeError)"

text \<open>\<^verbatim>\<open>d.get(k, default)\<close> on a dict.\<close>

definition dict_get :: "(string \<times> pyval) list \<Rightarrow> string \<Rightarrow> pyval \<Rightarrow> pyval" where
  "dict_get d k dflt = (case map_of d k of None \<Rightarrow> dflt | Some x \<Rightarrow> x)"

text \<open>
  \<^verbatim>\<open>float(v)\<close>. An int converts exactly here (the rounding of integers beyond 2^53 is
  left out); a string goes through \<open>parse_float\<close>.
\<close>

definition float_py :: "env \<Rightarrow> pyval \<Rightarrow> error + rat" where
  "float_py e v =
     (case v of
        PFloat r \<Rightarrow> Inr r
      | PInt n \<Rightarrow> Inr (of_int n)
      | PBool b \<Rightarrow> Inr (if b then 1 else 0)
      | PStr s \<Rightarrow> (case parse_float e s of None \<Rightarrow> Inl ValueError | Some r \<Rightarrow> Inr r)
      | _ \<Rightarrow> Inl TypeError)"

text \<open>\<^verbatim>\<open>v == 1\<close>: Python compares numbers by value, and \<^verbatim>\<open>True == 1\<close>.\<close>

definition eq_one :: "pyval \<Rightarrow> bool" where
  "eq_one v =
     (case v of
        PInt n \<Rightarrow> n = 1
      | PBool b \<Rightarrow> b
      | PFloat r \<Rightarrow> r = 1
      | _ \<Rightarrow> False)"

text \<open>The truth value of \<open>v\<close> in a condition.\<close>

definition truthy :: "pyval \<Rightarrow> bool" where
  "truthy v =
     (case v of
        PNone \<Rightarrow> False
      | PBool b \<Rightarrow> b
      | PInt n \<Rightarrow> n \<noteq> 0
      | PFloat r \<Rightarrow> r \<noteq> 0
      | PStr s \<Rightarrow> s \<noteq> []
      | PList xs \<Rightarrow> xs \<noteq> []
      | PDict d \<Rightarrow> d \<noteq> [])"

text \<open>
  What \<^verbatim>\<open>len(v)\<close> and \<^verbatim>\<open>for x in v\<close> see: the items of a list, the characters of a
  string, the keys of a dict; TypeError on a value that is neither sized nor iterable.
\<close>

definition items_of :: "pyval \<Rightarrow> error + pyval list" where
  "items_of v =
     (case v of
        PList xs \<Rightarrow> Inr xs
      | PStr s \<Rightarrow> Inr (map (\<lambda>c. PStr [c]) s)
      | PDict d \<Rightarrow> Inr (map PStr (remdups (map fst d)))
      | _ \<Rightarrow> Inl TypeError)"

section \<open>Connections: \<^verbatim>\<open>get_db\<close>\<close>

text \<open>
  A connection holds the session's working copy of the tables, the last committed copy,
  and the \<^verbatim>\<open>NOW()\<close> of its transaction. The world holds the committed tables, the number
  of connections opened so far (the index into \<open>clock\<close>), and the number still open.
  The server is taken to be reachable: \<^verbatim>\<open>psycopg.connect\<close> returns a connection, and
  \<^verbatim>\<open>commit\<close>, \<^verbatim>\<open>rollback\<close> and \<^verbatim>\<open>close\<close> do what they say. The run is single-threaded,
  so no other session writes between the statements of one connection.
\<close>

record conn =
  work :: db
  saved :: db
  now :: int

record world =
  store :: db
  opened :: nat
  live :: nat

definition connect :: "env \<Rightarrow> world \<Rightarrow> world \<times> conn" where
  "connect e w =
     (w\<lparr>opened := Suc (opened w), live := Suc (live w)\<rparr>,
      \<lparr>work = store w, saved = store w, now = clock e (opened w)\<rparr>)"

definition commit :: "conn \<Rightarrow> conn" where
  "commit c = c\<lparr>saved := work c\<rparr>"

definition rollback :: "conn \<Rightarrow> conn" where
  "rollback c = c\<lparr>work := saved c\<rparr>"

definition close :: "world \<Rightarrow> conn \<Rightarrow> world" where
  "close w c = w\<lparr>store := saved c, live := live w - 1\<rparr>"

text \<open>
  \<^verbatim>\<open>
  @contextmanager
  def get_db():
      conn = psycopg.connect(DATABASE_URL)
      try:
          yield conn
          conn.commit()
      except Exception:
          conn.rollback()
          raise
      finally:
          conn.close()
  \<close>
  The body of the \<^verbatim>\<open>with\<close> block is a function of the connection that returns the
  connection as it left it, with its result or the exception it raised.
\<close>

definition get_db :: "env \<Rightarrow> (conn \<Rightarrow> conn \<times> (error + 'a)) \<Rightarrow> world \<Rightarrow> world \<times> (error + 'a)" where
  "get_db e body w =
     (case connect e w of
        (w1, c0) \<Rightarrow>
          (case body c0 of
             (c1, Inr v) \<Rightarrow> (close w1 (commit c1), Inr v)
           | (c1, Inl err) \<Rightarrow> (close w1 (rollback c1), Inl err)))"

section \<open>The upserts\<close>

text \<open>
  \<^verbatim>\<open>INSERT ... ON CONFLICT (key) DO UPDATE SET ...\<close>: a row under the key is rewritten
  by \<open>upd\<close>, where it stands; without one, the proposed row \<open>new\<close> is added.
\<close>

fun upsert :: "'k \<Rightarrow> 'v \<Rightarrow> ('v \<Rightarrow> 'v) \<Rightarrow> ('k \<times> 'v) list \<Rightarrow> ('k \<times> 'v) list" where
  "upsert k new upd [] = [(k, new)]"
| "upsert k new upd ((k', v) # rows) =
     (if k' = k then (k', upd v) # rows else (k', v) # upsert k new upd rows)"

text \<open>
  The statement of \<^verbatim>\<open>update_accounts_table\<close>:
  \<^verbatim>\<open>
  INSERT INTO accounts (id, name, currency, balance, available_balance, balance_date)
  VALUES (%s, %s, %s, %s, %s, to_timestamp(%s))
  ON CONFLICT (id) DO UPDATE SET
      name = EXCLUDED.name,
      balance = EXCLUDED.balance,
      available_balance = EXCLUDED.available_balance,
      balance_date = EXCLUDED.balance_date,
      updated_at = NOW();
  \<close>
  \<open>account_values\<close> is the row of the VALUES clause, inserted at the instant \<open>t\<close>;
  \<open>account_set\<close> is the SET list, which does not name currency. The result of the
  statement is the connection and \<^verbatim>\<open>cur.rowcount\<close>, which is 1 on either branch.
\<close>

definition account_values :: "pyval \<Rightarrow> pyval \<Rightarrow> rat \<Rightarrow> rat \<Rightarrow> int \<Rightarrow> int \<Rightarrow> account" where
  "account_values name currency balance available_balance ts t =
     \<lparr>acct_name = name, acct_currency = currency, acct_balance = balance,
      acct_available_balance = available_balance, acct_balance_date = ts,
      updated_at = Column_default t\<rparr>"

definition account_set :: "pyval \<Rightarrow> rat \<Rightarrow> rat \<Rightarrow> int \<Rightarrow> int \<Rightarrow> account \<Rightarrow> account" where
  "account_set name balance available_balance ts t old =
     old\<lparr>acct_name := name, acct_balance := balance,
         acct_available_balance := available_balance, acct_balance_date := ts,
         updated_at := Now t\<rparr>"

definition execute_account_upsert ::
  "env \<Rightarrow> conn \<Rightarrow> pyval \<Rightarrow> pyval \<Rightarrow> pyval \<Rightarrow> rat \<Rightarrow> rat \<Rightarrow> pyval \<Rightarrow> error + conn \<times> nat" where
  "execute_account_upsert e c account_id name currency balance available_balance balance_date =
     (case to_timestamp e balance_date of
        None \<Rightarrow> Inl DatabaseError
      | Some ts \<Rightarrow>
          if \<not> accounts_ok e account_id name currency balance available_balance ts
          then Inl DatabaseError
          else Inr (c\<lparr>work := (work c)\<lparr>accounts :=
                      upsert account_id
                        (account_values name currency balance available_balance ts (now c))
                        (account_set name balance available_balance ts (now c))
                        (accounts (work c))\<rparr>\<rparr>, 1))"

text \<open>
  \<^verbatim>\<open>update_accounts_table\<close>: one connection, the statement, an explicit
  \<^verbatim>\<open>conn.commit()\<close>, and the row count returned. The \<^verbatim>\<open>except\<close> clause logs and raises
  again.
\<close>

definition update_accounts_table ::
  "env \<Rightarrow> pyval \<Rightarrow> pyval \<Rightarrow> pyval \<Rightarrow> rat \<Rightarrow> rat \<Rightarrow> pyval \<Rightarrow> world \<Rightarrow> world \<times> (error + nat)" where
  "update_accounts_table e account_id name currency balance available_balance balance_date w =
     get_db e
       (\<lambda>c. case execute_account_upsert e c account_id name currency balance
                    available_balance balance_date of
               Inl err \<Rightarrow> (c, Inl err)
             | Inr (c', row_count) \<Rightarrow> (commit c', Inr row_count))
       w"

text \<open>
  Modelled from the spec: the schema is not in the repository; the spec gives
  \<^verbatim>\<open>account_snapshots(account_id FK, ...)\<close> and \<^verbatim>\<open>transactions(id PK, account_id FK, ...)\<close>.
  A row that is inserted must reference an account that exists.
\<close>

definition references_account :: "db \<Rightarrow> pyval \<Rightarrow> bool" where
  "references_account d account_id = (account_id \<in> set (map fst (accounts d)))"

text \<open>
  Modelled from the spec: the schema is not in the repository; the spec gives
  \<^verbatim>\<open>accounts(id PK, ...)\<close> and \<^verbatim>\<open>transactions(id PK, account_id FK, ...)\<close>. Tables keep
  these keys when no two account rows share an id and every transaction row references
  an account row.
\<close>

definition keys_hold :: "db \<Rightarrow> bool" where
  "keys_hold d \<longleftrightarrow>
     distinct (map fst (accounts d))
     \<and> (\<forall>(tid, t) \<in> set (transactions d). references_account d (txn_account_id t))"

text \<open>
  The statement of \<^verbatim>\<open>update_account_snapshots_table\<close>:
  \<^verbatim>\<open>
  INSERT INTO account_snapshots (account_id, balance, available_balance, balance_date)
  VALUES (%s, %s, %s, to_timestamp(%s))
  ON CONFLICT (account_id, balance_date) DO UPDATE SET
      balance = EXCLUDED.balance,
      available_balance = EXCLUDED.available_balance,
      snapshot_taken_at = NOW()
  \<close>
\<close>

definition snapshot_values :: "rat \<Rightarrow> rat \<Rightarrow> int \<Rightarrow> snapshot" where
  "snapshot_values balance available_balance t =
     \<lparr>snap_balance = balance, snap_available_balance = available_balance,
      snapshot_taken_at = Column_default t\<rparr>"

definition snapshot_set :: "rat \<Rightarrow> rat \<Rightarrow> int \<Rightarrow> snapshot \<Rightarrow> snapshot" where
  "snapshot_set balance available_balance t old =
     old\<lparr>snap_balance := balance, snap_available_balance := available_balance,
         snapshot_taken_at := Now t\<rparr>"

definition execute_snapshot_upsert ::
  "env \<Rightarrow> conn \<Rightarrow> pyval \<Rightarrow> rat \<Rightarrow> rat \<Rightarrow> pyval \<Rightarrow> error + conn \<times> nat" where
  "execute_snapshot_upsert e c account_id balance available_balance balance_date =
     (case to_timestamp e balance_date of
        None \<Rightarrow> Inl DatabaseError
      | Some ts \<Rightarrow>
          if \<not> snapshots_ok e account_id balance available_balance ts
          then Inl DatabaseError
          else if (account_id, ts) \<notin> set (map fst (account_snapshots (work c)))
                  \<and> \<not> references_account (work c) account_id then Inl DatabaseError
          else Inr (c\<lparr>work := (work c)\<lparr>account_snapshots :=
                      upsert (account_id, ts)
                        (snapshot_values balance available_balance (now c))
                        (snapshot_set balance available_balance (now c))
                        (account_snapshots (work c))\<rparr>\<rparr>, 1))"

definition update_account_snapshots_table ::
  "env \<Rightarrow> pyval \<Rightarrow> rat \<Rightarrow> rat \<Rightarrow> pyval \<Rightarrow> world \<Rightarrow> world \<times> (error + nat)" where
  "update_account_snapshots_table e account_id balance available_balance balance_date w =
     get_db e
       (\<lambda>c. case execute_snapshot_upsert e c account_id balance available_balance
                    balance_date of
               Inl err \<Rightarrow> (c, Inl err)
             | Inr (c', row_count) \<Rightarrow> (c', Inr row_count))
       w"

text \<open>
  One pass of the loop of \<^verbatim>\<open>update_transactions_table\<close>, up to the parameter tuple of
  \<^verbatim>\<open>cur.execute\<close>, in the order the source evaluates it:
  \<^verbatim>\<open>
  amount = float(txn['amount'])
  is_pending = txn.get('pending', False)
  logfire.info(f'Inserting transaction ${txn["id"]}')
  cur.execute(..., (txn['id'], account_id, txn['posted'] == 1, amount,
                    txn.get('description', ''), txn.get('payee', ''),
                    txn.get('memo', ''), txn['transacted_at'], is_pending))
  \<close>
\<close>

type_synonym txn_args = "pyval \<times> pyval \<times> bool \<times> rat \<times> pyval \<times> pyval \<times> pyval \<times> pyval \<times> pyval"

definition txn_params :: "env \<Rightarrow> pyval \<Rightarrow> pyval \<Rightarrow> error + txn_args" where
  "txn_params e account_id t =
     (case getitem t ''amount'' of
        Inl err \<Rightarrow> Inl err
      | Inr a \<Rightarrow>
     (case float_py e a of
        Inl err \<Rightarrow> Inl err
      | Inr amt \<Rightarrow>
     (case t of
        PDict d \<Rightarrow>
          (let is_pending = dict_get d ''pending'' (PBool False) in
           case getitem t ''id'' of
             Inl err \<Rightarrow> Inl err
           | Inr tid \<Rightarrow>
          (case getitem t ''posted'' of
             Inl err \<Rightarrow> Inl err
           | Inr p \<Rightarrow>
          (case getitem t ''transacted_at'' of
             Inl err \<Rightarrow> Inl err
           | Inr ta \<Rightarrow>
               Inr (tid, account_id, eq_one p, amt,
                    dict_get d ''description'' (PStr []),
                    dict_get d ''payee'' (PStr []),
                    dict_get d ''memo'' (PStr []),
                    ta, is_pending))))
      | _ \<Rightarrow> Inl TypeError)))"

text \<open>
  The statement of \<^verbatim>\<open>update_transactions_table\<close>:
  \<^verbatim>\<open>
  INSERT INTO transactions (id, account_id, posted, amount, description,
                            payee, memo, transacted_at, pending)
  VALUES (%s, %s, %s, %s, %s, %s, %s, to_timestamp(%s), %s)
  ON CONFLICT (id) DO UPDATE SET
      posted = EXCLUDED.posted, amount = EXCLUDED.amount,
      description = EXCLUDED.description, payee = EXCLUDED.payee,
      memo = EXCLUDED.memo, transacted_at = EXCLUDED.transacted_at,
      pending = EXCLUDED.pending, last_updated_at = NOW()
  \<close>
  The SET list names every column but \<^verbatim>\<open>id\<close> and \<^verbatim>\<open>account_id\<close>.
\<close>

definition txn_values ::
  "pyval \<Rightarrow> bool \<Rightarrow> rat \<Rightarrow> pyval \<Rightarrow> pyval \<Rightarrow> pyval \<Rightarrow> int \<Rightarrow> pyval \<Rightarrow> int \<Rightarrow> txn" where
  "txn_values account_id is_posted amt descr pay mem ts is_pending t =
     \<lparr>txn_account_id = account_id, posted = is_posted, amount = amt,
      description = descr, payee = pay, memo = mem, transacted_at = ts,
      pending = is_pending, last_updated_at = Column_default t\<rparr>"

definition txn_set ::
  "bool \<Rightarrow> rat \<Rightarrow> pyval \<Rightarrow> pyval \<Rightarrow> pyval \<Rightarrow> int \<Rightarrow> pyval \<Rightarrow> int \<Rightarrow> txn \<Rightarrow> txn" where
  "txn_set is_posted amt descr pay mem ts is_pending t old =
     old\<lparr>posted := is_posted, amount := amt, description := descr, payee := pay,
         memo := mem, transacted_at := ts, pending := is_pending,
         last_updated_at := Now t\<rparr>"

fun execute_txn_upsert :: "env \<Rightarrow> conn \<Rightarrow> txn_args \<Rightarrow> error + conn \<times> nat" where
  "execute_txn_upsert e c (tid, account_id, is_posted, amt, descr, pay, mem, ta, is_pending) =
     (case to_timestamp e ta of
        None \<Rightarrow> Inl DatabaseError
      | Some ts \<Rightarrow>
          if \<not> transactions_ok e tid account_id is_posted amt descr pay mem ts is_pending
          then Inl DatabaseError
          else if tid \<notin> set (map fst (transactions (work c)))
                  \<and> \<not> references_account (work c) account_id then Inl DatabaseError
          else Inr (c\<lparr>work := (work c)\<lparr>transactions :=
                      upsert tid
                        (txn_values account_id is_posted amt descr pay mem ts is_pending
                           (now c))
                        (txn_set is_posted amt descr pay mem ts is_pending (now c))
                        (transactions (work c))\<rparr>\<rparr>, 1))"

text \<open>
  The loop \<^verbatim>\<open>for txn in transactions\<close> with its counter \<open>cnt\<close> (\<^verbatim>\<open>count += cur.rowcount\<close>). An
  exception leaves the loop with the connection as the passes before it left it. The
  sums \<^verbatim>\<open>total_amount\<close> and \<^verbatim>\<open>pending_count\<close> only go to the log.
\<close>

fun txn_loop :: "env \<Rightarrow> pyval \<Rightarrow> pyval list \<Rightarrow> conn \<Rightarrow> nat \<Rightarrow> conn \<times> (error + nat)" where
  "txn_loop e account_id [] c cnt = (c, Inr cnt)"
| "txn_loop e account_id (t # ts) c cnt =
     (case txn_params e account_id t of
        Inl err \<Rightarrow> (c, Inl err)
      | Inr args \<Rightarrow>
          (case execute_txn_upsert e c args of
             Inl err \<Rightarrow> (c, Inl err)
           | Inr (c', row_count) \<Rightarrow> txn_loop e account_id ts c' (cnt + row_count)))"

definition update_transactions_table ::
  "env \<Rightarrow> pyval \<Rightarrow> pyval list \<Rightarrow> world \<Rightarrow> world \<times> (error + nat)" where
  "update_transactions_table e account_id txns w =
     get_db e (\<lambda>c. txn_loop e account_id txns c 0) w"

section \<open>The sync script\<close>

text \<open>
  The arguments \<^verbatim>\<open>sync_account_from_api\<close> reads from the account dict, in the order of
  the first call: id, name, currency, \<^verbatim>\<open>float(balance)\<close>,
  \<^verbatim>\<open>float(available-balance)\<close>, balance-date.
\<close>

definition account_args ::
  "env \<Rightarrow> pyval \<Rightarrow> error + pyval \<times> pyval \<times> pyval \<times> rat \<times> rat \<times> pyval" where
  "account_args e account_data =
     (case getitem account_data ''id'' of
        Inl err \<Rightarrow> Inl err
      | Inr aid \<Rightarrow>
     (case getitem account_data ''name'' of
        Inl err \<Rightarrow> Inl err
      | Inr name \<Rightarrow>
     (case getitem account_data ''currency'' of
        Inl err \<Rightarrow> Inl err
      | Inr currency \<Rightarrow>
     (case getitem account_data ''balance'' of
        Inl err \<Rightarrow> Inl err
      | Inr b \<Rightarrow>
     (case float_py e b of
        Inl err \<Rightarrow> Inl err
      | Inr balance \<Rightarrow>
     (case getitem account_data ''available-balance'' of
        Inl err \<Rightarrow> Inl err
      | Inr ab \<Rightarrow>
     (case float_py e ab of
        Inl err \<Rightarrow> Inl err
      | Inr available_balance \<Rightarrow>
     (case getitem account_data ''balance-date'' of
        Inl err \<Rightarrow> Inl err
      | Inr balance_date \<Rightarrow>
          Inr (aid, name, currency, balance, available_balance, balance_date)))))))))"

text \<open>
  The last step of \<^verbatim>\<open>sync_account_from_api\<close>:
  \<^verbatim>\<open>
  if 'transactions' in account_data and account_data['transactions']:
      sync_statistics.total_transactions += len(account_data['transactions'])
      update_transactions_table(account_id=..., transactions=...)
      sync_statistics.total_transactions += len(account_data['transactions'])
  \<close>
  The result is \<^verbatim>\<open>total_transactions\<close>, which the source adds to twice.
\<close>

definition sync_transactions :: "env \<Rightarrow> pyval \<Rightarrow> pyval \<Rightarrow> world \<Rightarrow> world \<times> (error + nat)" where
  "sync_transactions e aid account_data w =
     (case account_data of
        PDict d \<Rightarrow>
          (case map_of d ''transactions'' of
             None \<Rightarrow> (w, Inr 0)
           | Some v \<Rightarrow>
               if \<not> truthy v then (w, Inr 0)
               else
                 (case items_of v of
                    Inl err \<Rightarrow> (w, Inl err)
                  | Inr txns \<Rightarrow>
                      (case update_transactions_table e aid txns w of
                         (w', Inl err) \<Rightarrow> (w', Inl err)
                       | (w', Inr n) \<Rightarrow> (w', Inr (length txns + length txns)))))
      | _ \<Rightarrow> (w, Inl TypeError))"

definition sync_account_from_api :: "env \<Rightarrow> pyval \<Rightarrow> world \<Rightarrow> world \<times> (error + nat)" where
  "sync_account_from_api e account_data w =
     (case account_args e account_data of
        Inl err \<Rightarrow> (w, Inl err)
      | Inr (aid, name, currency, balance, available_balance, balance_date) \<Rightarrow>
          (case update_accounts_table e aid name currency balance available_balance
                  balance_date w of
             (w1, Inl err) \<Rightarrow> (w1, Inl err)
           | (w1, Inr n1) \<Rightarrow>
               (case update_account_snapshots_table e aid balance available_balance
                       balance_date w1 of
                  (w2, Inl err) \<Rightarrow> (w2, Inl err)
                | (w2, Inr n2) \<Rightarrow> sync_transactions e aid account_data w2)))"

text \<open>The loop of \<^verbatim>\<open>sync_all_accounts\<close>: no \<^verbatim>\<open>try\<close> stands around the call.\<close>

fun sync_loop :: "env \<Rightarrow> pyval list \<Rightarrow> world \<Rightarrow> world \<times> (error + unit)" where
  "sync_loop e [] w = (w, Inr ())"
| "sync_loop e (a # as) w =
     (case sync_account_from_api e a w of
        (w', Inl err) \<Rightarrow> (w', Inl err)
      | (w', Inr n) \<Rightarrow> sync_loop e as w')"

definition sync_all_accounts ::
  "env \<Rightarrow> (string \<times> pyval) list \<Rightarrow> world \<Rightarrow> world \<times> (error + unit)" where
  "sync_all_accounts e api_response w =
     (case items_of (dict_get api_response ''accounts'' (PList [])) of
        Inl err \<Rightarrow> (w, Inl err)
      | Inr accts \<Rightarrow> sync_loop e accts w)"

section \<open>The query\<close>

record todays_txn =
  row_account_name :: pyval
  row_amount :: rat
  row_description :: pyval
  row_payee :: pyval
  row_memo :: pyval
  row_transacted_at :: int
  row_pending :: pyval

definition select_row :: "account \<Rightarrow> txn \<Rightarrow> todays_txn" where
  "select_row a t =
     \<lparr>row_account_name = acct_name a, row_amount = amount t,
      row_description = description t, row_payee = payee t, row_memo = memo t,
      row_transacted_at = transacted_at t, row_pending = pending t\<rparr>"

text \<open>
  \<^verbatim>\<open>
  SELECT a.name as account_name, t.amount, t.description, t.payee, t.memo,
         t.transacted_at, t.pending
  FROM transactions t JOIN accounts a ON t.account_id = a.id
  WHERE DATE(t.transacted_at) = CURRENT_DATE - INTERVAL '1 day'
  ORDER BY t.transacted_at DESC
  \<close>
  SQL leaves the order of rows with equal \<^verbatim>\<open>transacted_at\<close> open; the model sorts
  stably.
\<close>

definition select_todays :: "env \<Rightarrow> conn \<Rightarrow> todays_txn list" where
  "select_todays e c =
     sort_key (\<lambda>r. - row_transacted_at r)
       [select_row a t.
          (tid, t) \<leftarrow> transactions (work c),
          (aid, a) \<leftarrow> accounts (work c),
          txn_account_id t = aid,
          session_date e (transacted_at t) = session_date e (now c) - 1]"

definition get_todays_transactions :: "env \<Rightarrow> world \<Rightarrow> world \<times> (error + todays_txn list)" where
  "get_todays_transactions e w = get_db e (\<lambda>c. (c, Inr (select_todays e c))) w"

section \<open>An environment for the examples\<close>

text \<open>
  A UTC session, a clock that advances by one second with every connection, epochs given
  as JSON integers, tables that accept every row, and no string that parses as a float.
\<close>

definition example_env :: env where
  "example_env =
     \<lparr>parse_float = (\<lambda>s. None),
      to_timestamp = (\<lambda>v. case v of PInt n \<Rightarrow> Some n | _ \<Rightarrow> None),
      accounts_ok = (\<lambda>aid name currency balance available ts. True),
      snapshots_ok = (\<lambda>aid balance available ts. True),
      transactions_ok = (\<lambda>tid aid p amt d py m ts pend. True),
      session_date = (\<lambda>t. t div 86400),
      clock = (\<lambda>n. 1000 + int n)\<rparr>"

definition empty_db :: db where
  "empty_db = \<lparr>accounts = [], account_snapshots = [], transactions = []\<rparr>"

definition fresh_world :: world where
  "fresh_world = \<lparr>store = empty_db, opened = 0, live = 0\<rparr>"

text \<open>A world that already holds account A, in US dollars.\<close>

definition usd_world :: world where
  "usd_world =
     \<lparr>store = \<lparr>accounts = [(PStr ''A'',
                  \<lparr>acct_name = PStr ''Checking'', acct_currency = PStr ''USD'',
                   acct_balance = 100, acct_available_balance = 100,
                   acct_balance_date = 5000, updated_at = Column_default 900\<rparr>)],
               account_snapshots = [], transactions = []\<rparr>,
      opened = 1, live = 0\<rparr>"

text \<open>
  Three transaction records: one with only the required fields, one with every field,
  one without the \<^verbatim>\<open>posted\<close> indicator.
\<close>

definition txn_lunch :: pyval where
  "txn_lunch = PDict [(''id'', PStr ''t1''), (''posted'', PInt 1), (''amount'', PInt (- 12)),
                      (''transacted_at'', PInt 4000)]"

definition txn_coffee :: pyval where
  "txn_coffee = PDict [(''id'', PStr ''t2''), (''posted'', PInt 0), (''amount'', PInt (- 3)),
                       (''description'', PStr ''Coffee''), (''payee'', PStr ''Cafe''),
                       (''memo'', PNone), (''transacted_at'', PInt 4100),
                       (''pending'', PBool True)]"

definition txn_no_posted :: pyval where
  "txn_no_posted = PDict [(''id'', PStr ''t3''), (''amount'', PInt 5),
                          (''transacted_at'', PInt 4200)]"


text \<open>
  A later session, on day 2 of the epoch, and a world with two accounts and four
  transactions: two on day 1, one on day 0, one on day 2.
\<close>

definition day_two_env :: env where
  "day_two_env = example_env\<lparr>clock := (\<lambda>n. 200000 + int n)\<rparr>"

definition query_world :: world where
  "query_world =
     \<lparr>store =
        \<lparr>accounts =
           [(PStr ''A'', account_values (PStr ''Checking'') (PStr ''USD'') 100 100 90000 1000),
            (PStr ''B'', account_values (PStr ''Savings'') (PStr ''USD'') 500 500 90000 1003)],
         account_snapshots = [],
         transactions =
           [(PStr ''t1'', txn_values (PStr ''A'') True (- 12) (PStr ''Lunch'') (PStr ''Deli'')
                            (PStr []) 90000 (PBool False) 1002),
            (PStr ''t2'', txn_values (PStr ''B'') True 250 (PStr ''Transfer'') (PStr [])
                            (PStr []) 100000 (PBool False) 1005),
            (PStr ''t3'', txn_values (PStr ''A'') True (- 3) (PStr ''Coffee'') (PStr ''Cafe'')
                            (PStr []) 50000 (PBool False) 1002),
            (PStr ''t4'', txn_values (PStr ''B'') False (- 40) (PStr ''Fuel'') (PStr [])
                            (PStr []) 180000 (PBool True) 1005)]\<rparr>,
      opened = 6, live = 0\<rparr>"

text \<open>
  Two account payloads: account A with the lunch and the coffee, account B with the
  record that lacks \<^verbatim>\<open>posted\<close>.
\<close>

definition payload_a :: pyval where
  "payload_a =
     PDict [(''id'', PStr ''A''), (''name'', PStr ''Checking''), (''currency'', PStr ''USD''),
            (''balance'', PInt 100), (''available-balance'', PInt 100),
            (''balance-date'', PInt 5000),
            (''transactions'', PList [txn_lunch, txn_coffee])]"

definition payload_b :: pyval where
  "payload_b =
     PDict [(''id'', PStr ''B''), (''name'', PStr ''Savings''), (''currency'', PStr ''USD''),
            (''balance'', PInt 500), (''available-balance'', PInt 500),
            (''balance-date'', PInt 5000),
            (''transactions'', PList [txn_no_posted])]"

section \<open>Facts about \<open>upsert\<close>\<close>

lemma set_keys_upsert:
  "fst ` set (upsert k new upd rows) = insert k (fst ` set rows)"
  by (induction k new upd rows rule: upsert.induct) auto

lemma upsert_keys_present:
  "k \<in> fst ` set rows \<Longrightarrow> map fst (upsert k new upd rows) = map fst rows"
  by (induction k new upd rows rule: upsert.induct) auto

lemma map_of_upsert:
  "map_of (upsert k new upd rows) k' =
     (if k' = k then Some (case map_of rows k of None \<Rightarrow> new | Some v \<Rightarrow> upd v)
      else map_of rows k')"
  by (induction k new upd rows rule: upsert.induct) auto

lemma distinct_keys_upsert:
  "distinct (map fst rows) \<Longrightarrow> distinct (map fst (upsert k new upd rows))"
  by (induction k new upd rows rule: upsert.induct) (auto simp: set_keys_upsert)

section \<open>The three writes, unfolded\<close>

lemma update_accounts_table_eq:
  "update_accounts_table e aid name currency balance available bd w =
     (case to_timestamp e bd of
        None \<Rightarrow> (w\<lparr>opened := Suc (opened w)\<rparr>, Inl DatabaseError)
      | Some ts \<Rightarrow>
          if \<not> accounts_ok e aid name currency balance available ts
          then (w\<lparr>opened := Suc (opened w)\<rparr>, Inl DatabaseError)
          else (w\<lparr>store := (store w)\<lparr>accounts :=
                   upsert aid
                     (account_values name currency balance available ts (clock e (opened w)))
                     (account_set name balance available ts (clock e (opened w)))
                     (accounts (store w))\<rparr>,
                 opened := Suc (opened w)\<rparr>, Inr 1))"
  by (simp add: update_accounts_table_def get_db_def connect_def close_def commit_def
      rollback_def execute_account_upsert_def split: option.split)

lemma update_account_snapshots_table_eq:
  "update_account_snapshots_table e aid balance available bd w =
     (case to_timestamp e bd of
        None \<Rightarrow> (w\<lparr>opened := Suc (opened w)\<rparr>, Inl DatabaseError)
      | Some ts \<Rightarrow>
          if \<not> snapshots_ok e aid balance available ts
             \<or> ((aid, ts) \<notin> fst ` set (account_snapshots (store w))
                 \<and> \<not> references_account (store w) aid)
          then (w\<lparr>opened := Suc (opened w)\<rparr>, Inl DatabaseError)
          else (w\<lparr>store := (store w)\<lparr>account_snapshots :=
                   upsert (aid, ts)
                     (snapshot_values balance available (clock e (opened w)))
                     (snapshot_set balance available (clock e (opened w)))
                     (account_snapshots (store w))\<rparr>,
                 opened := Suc (opened w)\<rparr>, Inr 1))"
  by (simp add: update_account_snapshots_table_def get_db_def connect_def close_def
      commit_def rollback_def execute_snapshot_upsert_def split: option.split)

lemma snapshot_keys_distinct_step:
  "distinct (map fst (account_snapshots (store w))) \<Longrightarrow>
   distinct (map fst (account_snapshots (store (fst
     (update_account_snapshots_table e aid balance available bd w)))))"
  by (simp add: update_account_snapshots_table_eq distinct_keys_upsert split: option.split)

lemma snapshot_keys_distinct_foldl:
  "distinct (map fst (account_snapshots (store w))) \<Longrightarrow>
   distinct (map fst (account_snapshots (store (foldl
     (\<lambda>w (aid, balance, available, bd).
         fst (update_account_snapshots_table e aid balance available bd w)) w calls))))"
proof (induction calls arbitrary: w)
  case Nil
  then show ?case by simp
next
  case (Cons call calls)
  obtain aid balance available bd where call: "call = (aid, balance, available, bd)"
    by (cases call)
  show ?case
    using Cons.IH [OF snapshot_keys_distinct_step [OF Cons.prems, of e aid balance available bd]]
    by (simp add: call)
qed

lemma rows_under_key:
  "distinct (map fst rows) \<Longrightarrow> map_of rows k = Some v \<Longrightarrow>
   filter (\<lambda>r. fst r = k) rows = [(k, v)]"
proof (induction rows)
  case Nil
  then show ?case by simp
next
  case (Cons p rows)
  show ?case
  proof (cases "fst p = k")
    case True
    with Cons.prems have "k \<notin> fst ` set rows" and "p = (k, v)"
      by (auto simp: prod_eq_iff)
    then have "filter (\<lambda>r. fst r = k) rows = []"
      by (auto simp: filter_empty_conv)
    with True \<open>p = (k, v)\<close> show ?thesis by simp
  next
    case False
    with Cons show ?thesis by (cases p) auto
  qed
qed

lemma snapshot_set_eq:
  "snapshot_set b a t old =
     \<lparr>snap_balance = b, snap_available_balance = a, snapshot_taken_at = Now t\<rparr>"
  by (cases old) (simp add: snapshot_set_def)

lemma snapshot_success:
  assumes "update_account_snapshots_table e aid balance available bd w = (w', Inr n)"
    and "to_timestamp e bd = Some ts"
  shows "account_snapshots (store w') =
           upsert (aid, ts)
             (snapshot_values balance available (clock e (opened w)))
             (snapshot_set balance available (clock e (opened w)))
             (account_snapshots (store w))"
  using assms by (auto simp: update_account_snapshots_table_eq split: if_splits)

section \<open>The transaction batch\<close>

lemma getitem_dict:
  "getitem (PDict d) k = (case map_of d k of None \<Rightarrow> Inl (KeyError k) | Some x \<Rightarrow> Inr x)"
  by (simp add: getitem_def)

lemma getitem_Inr_dict:
  "getitem t k = Inr x \<Longrightarrow> \<exists>d. t = PDict d \<and> map_of d k = Some x"
  by (cases t) (auto simp: getitem_def split: option.splits)

lemma txn_params_Inr:
  assumes "txn_params e account_id t = Inr args"
  shows "\<exists>d tid p a amt ta.
           t = PDict d \<and> map_of d ''id'' = Some tid \<and> map_of d ''posted'' = Some p
         \<and> map_of d ''amount'' = Some a \<and> float_py e a = Inr amt
         \<and> map_of d ''transacted_at'' = Some ta
         \<and> args = (tid, account_id, eq_one p, amt,
                    dict_get d ''description'' (PStr []), dict_get d ''payee'' (PStr []),
                    dict_get d ''memo'' (PStr []), ta, dict_get d ''pending'' (PBool False))"
proof -
  from assms obtain a where a: "getitem t ''amount'' = Inr a"
    by (auto simp: txn_params_def split: sum.splits)
  then obtain d where d: "t = PDict d" and am: "map_of d ''amount'' = Some a"
    using getitem_Inr_dict by blast
  from assms a obtain amt where amt: "float_py e a = Inr amt"
    by (auto simp: txn_params_def split: sum.splits)
  from assms show ?thesis
    unfolding d
    by (auto simp: txn_params_def getitem_dict am amt Let_def split: option.splits)
qed

lemma execute_txn_upsert_Inr:
  assumes "execute_txn_upsert e c (tid, acc, p, amt, d, py, m, ta, pend) = Inr (c', rc)"
  shows "\<exists>ts. to_timestamp e ta = Some ts \<and> rc = 1
           \<and> c' = c\<lparr>work := (work c)\<lparr>transactions :=
                 upsert tid (txn_values acc p amt d py m ts pend (now c))
                   (txn_set p amt d py m ts pend (now c))
                   (transactions (work c))\<rparr>\<rparr>"
  using assms by (auto split: option.splits if_splits)

lemma execute_txn_upsert_frame:
  assumes "execute_txn_upsert e c args = Inr (c', rc)"
  shows "saved c' = saved c" and "now c' = now c"
    and "accounts (work c') = accounts (work c)"
    and "account_snapshots (work c') = account_snapshots (work c)"
    and "rc = 1"
  using assms by (cases args; auto dest!: execute_txn_upsert_Inr)+

lemma execute_txn_upsert_row:
  assumes "execute_txn_upsert e c (tid, acc, p, amt, d, py, m, ta, pend) = Inr (c', rc)"
  shows "\<exists>ts r. to_timestamp e ta = Some ts
           \<and> map_of (transactions (work c')) tid = Some r
           \<and> posted r = p \<and> amount r = amt \<and> description r = d \<and> payee r = py
           \<and> memo r = m \<and> transacted_at r = ts \<and> pending r = pend"
proof -
  from execute_txn_upsert_Inr [OF assms] obtain ts where
    "to_timestamp e ta = Some ts" and
    "transactions (work c') =
       upsert tid (txn_values acc p amt d py m ts pend (now c))
         (txn_set p amt d py m ts pend (now c)) (transactions (work c))"
    by auto
  then show ?thesis
    by (simp add: map_of_upsert txn_values_def txn_set_def split: option.split)
qed

lemma execute_txn_upsert_other:
  assumes "execute_txn_upsert e c args = Inr (c', rc)" and "k \<noteq> fst args"
  shows "map_of (transactions (work c')) k = map_of (transactions (work c)) k"
  using assms by (cases args) (auto dest!: execute_txn_upsert_Inr simp: map_of_upsert)

lemma txn_loop_saved:
  "saved (fst (txn_loop e account_id ts c cnt)) = saved c"
proof (induction ts arbitrary: c cnt)
  case Nil
  then show ?case by simp
next
  case (Cons t ts)
  show ?case
    by (auto simp: Cons.IH execute_txn_upsert_frame split: sum.splits)
qed

lemma txn_loop_append:
  "txn_loop e account_id (xs @ ys) c cnt =
     (case txn_loop e account_id xs c cnt of
        (c1, Inl err) \<Rightarrow> (c1, Inl err)
      | (c1, Inr n) \<Rightarrow> txn_loop e account_id ys c1 n)"
  by (induction xs arbitrary: c cnt) (auto split: sum.splits)

lemma txn_loop_other:
  assumes "txn_loop e account_id ts c cnt = (c', Inr n)"
    and "\<forall>u\<in>set ts. getitem u ''id'' \<noteq> Inr k"
  shows "map_of (transactions (work c')) k = map_of (transactions (work c)) k"
  using assms
proof (induction ts arbitrary: c cnt)
  case Nil
  then show ?case by simp
next
  case (Cons t ts)
  from Cons.prems(1) obtain args where args: "txn_params e account_id t = Inr args"
    by (auto split: sum.splits)
  with Cons.prems(1) obtain c1 rc where step: "execute_txn_upsert e c args = Inr (c1, rc)"
    and rest: "txn_loop e account_id ts c1 (cnt + rc) = (c', Inr n)"
    by (auto split: sum.splits)
  from txn_params_Inr [OF args] have "getitem t ''id'' = Inr (fst args)"
    by (auto simp: getitem_dict)
  with Cons.prems(2) have "k \<noteq> fst args" by auto
  from execute_txn_upsert_other [OF step this] Cons.IH [OF rest] Cons.prems(2)
  show ?case by simp
qed

lemma update_transactions_table_eq:
  "update_transactions_table e account_id txns w =
     (case txn_loop e account_id txns
             \<lparr>work = store w, saved = store w, now = clock e (opened w)\<rparr> 0 of
        (c1, Inr n) \<Rightarrow> (w\<lparr>store := work c1, opened := Suc (opened w)\<rparr>, Inr n)
      | (c1, Inl err) \<Rightarrow> (w\<lparr>opened := Suc (opened w)\<rparr>, Inl err))"
proof -
  let ?c0 = "\<lparr>work = store w, saved = store w, now = clock e (opened w)\<rparr>"
  have "saved (fst (txn_loop e account_id txns ?c0 0)) = store w"
    by (simp add: txn_loop_saved)
  then show ?thesis
    by (auto simp: update_transactions_table_def get_db_def connect_def close_def
        commit_def rollback_def split: prod.splits sum.splits)
qed

lemma batch_persists:
  assumes "update_transactions_table e account_id (pre @ PDict d # post) w = (w', Inr n)"
    and "\<forall>u\<in>set post. getitem u ''id'' \<noteq> getitem (PDict d) ''id''"
  shows "\<exists>tid p a amt ta ts r.
           map_of d ''id'' = Some tid \<and> map_of d ''posted'' = Some p
         \<and> map_of d ''amount'' = Some a \<and> float_py e a = Inr amt
         \<and> map_of d ''transacted_at'' = Some ta \<and> to_timestamp e ta = Some ts
         \<and> map_of (transactions (store w')) tid = Some r
         \<and> posted r = eq_one p \<and> amount r = amt
         \<and> description r = dict_get d ''description'' (PStr [])
         \<and> payee r = dict_get d ''payee'' (PStr [])
         \<and> memo r = dict_get d ''memo'' (PStr [])
         \<and> transacted_at r = ts
         \<and> pending r = dict_get d ''pending'' (PBool False)"
proof -
  let ?c0 = "\<lparr>work = store w, saved = store w, now = clock e (opened w)\<rparr>"
  from assms(1) obtain c3 where loop: "txn_loop e account_id (pre @ PDict d # post) ?c0 0 = (c3, Inr n)"
    and w': "store w' = work c3"
    by (auto simp: update_transactions_table_eq split: prod.splits sum.splits)
  from loop obtain c1 n1 where "txn_loop e account_id pre ?c0 0 = (c1, Inr n1)"
    and tail: "txn_loop e account_id (PDict d # post) c1 n1 = (c3, Inr n)"
    by (auto simp: txn_loop_append split: prod.splits sum.splits)
  from tail obtain args where args: "txn_params e account_id (PDict d) = Inr args"
    by (auto split: sum.splits)
  with tail obtain c2 rc where step: "execute_txn_upsert e c1 args = Inr (c2, rc)"
    and rest: "txn_loop e account_id post c2 (n1 + rc) = (c3, Inr n)"
    by (auto split: sum.splits)
  from txn_params_Inr [OF args] obtain tid p a amt ta where
    fields: "map_of d ''id'' = Some tid" "map_of d ''posted'' = Some p"
      "map_of d ''amount'' = Some a" "float_py e a = Inr amt"
      "map_of d ''transacted_at'' = Some ta"
    and args_eq: "args = (tid, account_id, eq_one p, amt,
                    dict_get d ''description'' (PStr []), dict_get d ''payee'' (PStr []),
                    dict_get d ''memo'' (PStr []), ta, dict_get d ''pending'' (PBool False))"
    by auto
  from execute_txn_upsert_row [OF step [unfolded args_eq]] obtain ts r where
    row: "to_timestamp e ta = Some ts" "map_of (transactions (work c2)) tid = Some r"
      "posted r = eq_one p" "amount r = amt"
      "description r = dict_get d ''description'' (PStr [])"
      "payee r = dict_get d ''payee'' (PStr [])"
      "memo r = dict_get d ''memo'' (PStr [])"
      "transacted_at r = ts" "pending r = dict_get d ''pending'' (PBool False)"
    by auto
  from assms(2) fields(1) have "\<forall>u\<in>set post. getitem u ''id'' \<noteq> Inr tid"
    by (simp add: getitem_dict)
  from txn_loop_other [OF rest this] have "map_of (transactions (work c3)) tid = Some r"
    using row(2) by simp
  with fields row w' show ?thesis by auto
qed

lemma txn_params_Inl:
  assumes "txn_params e account_id t = Inl err"
  shows "err = TypeError \<or> err = ValueError \<or> err = KeyError ''amount''
       \<or> err = KeyError ''id'' \<or> err = KeyError ''posted''
       \<or> err = KeyError ''transacted_at''"
proof (cases t)
  case (PDict d)
  from assms show ?thesis
    unfolding PDict
    by (auto simp: txn_params_def getitem_dict float_py_def Let_def
        split: option.splits sum.splits pyval.splits)
qed (use assms in \<open>auto simp: txn_params_def getitem_def\<close>)

lemma txn_loop_fails:
  assumes "t \<in> set ts"
    and "(\<exists>err. txn_params e account_id t = Inl err)
       \<or> (\<exists>args. txn_params e account_id t = Inr args
             \<and> (\<forall>c. \<exists>err. execute_txn_upsert e c args = Inl err))"
  shows "\<exists>c' err. txn_loop e account_id ts c cnt = (c', Inl err)"
  using assms(1)
proof (induction ts arbitrary: c cnt)
  case Nil
  then show ?case by simp
next
  case (Cons u ts)
  show ?case
  proof (cases "txn_params e account_id u")
    case (Inl err)
    then show ?thesis by simp
  next
    case (Inr args)
    show ?thesis
    proof (cases "execute_txn_upsert e c args")
      case (Inl err)
      with Inr show ?thesis by simp
    next
      case step: (Inr cr)
      obtain c1 rc where cr: "cr = (c1, rc)" by (cases cr)
      have "t \<noteq> u"
      proof
        assume "t = u"
        with assms(2) Inr obtain err where "execute_txn_upsert e c args = Inl err"
          by auto
        with step show False by simp
      qed
      with Cons.prems have "t \<in> set ts" by simp
      from Cons.IH [OF this, of c1 "cnt + rc"] Inr step cr show ?thesis by simp
    qed
  qed
qed

section \<open>The join of the query\<close>

lemma join_one_account:
  assumes "distinct (map fst accts)" and "map_of accts k = Some a"
  shows "concat (map (\<lambda>(aid, a'). if k = aid then g a' else []) accts) = g a"
  using assms
proof (induction accts)
  case Nil
  then show ?case by simp
next
  case (Cons p accts)
  obtain k' a' where p: "p = (k', a')" by (cases p)
  show ?case
  proof (cases "k = k'")
    case True
    with Cons.prems p have "a' = a" and "k \<notin> fst ` set accts" by auto
    then have "concat (map (\<lambda>(aid, a'). if k = aid then g a' else []) accts) = []"
      by (auto simp: image_iff)
    with True p \<open>a' = a\<close> show ?thesis by simp
  next
    case False
    with Cons p show ?thesis by simp
  qed
qed

lemma select_todays_join:
  assumes "distinct (map fst (accounts (work c)))"
    and "\<forall>(tid, t) \<in> set (transactions (work c)).
           txn_account_id t \<in> fst ` set (accounts (work c))"
  shows "[select_row a t.
          (tid, t) \<leftarrow> transactions (work c),
          (aid, a) \<leftarrow> accounts (work c),
          txn_account_id t = aid,
          session_date e (transacted_at t) = session_date e (now c) - 1]
       = map (\<lambda>(tid, t). select_row (the (map_of (accounts (work c)) (txn_account_id t))) t)
           (filter (\<lambda>(tid, t). session_date e (transacted_at t) = session_date e (now c) - 1)
              (transactions (work c)))"
proof -
  have one: "concat (map (\<lambda>(aid, a). if txn_account_id t = aid
                 then (if session_date e (transacted_at t) = session_date e (now c) - 1
                       then [select_row a t] else [])
                 else []) (accounts (work c)))
      = (if session_date e (transacted_at t) = session_date e (now c) - 1
         then [select_row (the (map_of (accounts (work c)) (txn_account_id t))) t] else [])"
    if "(tid, t) \<in> set (transactions (work c))" for tid t
  proof -
    from assms(2) that have "txn_account_id t \<in> fst ` set (accounts (work c))" by auto
    then obtain a where a: "map_of (accounts (work c)) (txn_account_id t) = Some a"
      by (metis map_of_eq_None_iff not_Some_eq)
    show ?thesis
      using join_one_account [OF assms(1) a,
          of "\<lambda>a. if session_date e (transacted_at t) = session_date e (now c) - 1
                   then [select_row a t] else []"]
      by (simp add: a)
  qed
  have "concat (map (\<lambda>(tid, t). concat (map (\<lambda>(aid, a). if txn_account_id t = aid
                 then (if session_date e (transacted_at t) = session_date e (now c) - 1
                       then [select_row a t] else [])
                 else []) (accounts (work c)))) rows)
      = map (\<lambda>(tid, t). select_row (the (map_of (accounts (work c)) (txn_account_id t))) t)
           (filter (\<lambda>(tid, t). session_date e (transacted_at t) = session_date e (now c) - 1)
              rows)"
    if "set rows \<subseteq> set (transactions (work c))" for rows
    using that
  proof (induction rows)
    case Nil
    then show ?case by simp
  next
    case (Cons p rows)
    obtain tid t where p: "p = (tid, t)" by (cases p)
    with Cons.prems have "(tid, t) \<in> set (transactions (work c))" by simp
    from one [OF this] Cons show ?case by (simp add: p)
  qed
  from this [of "transactions (work c)"] show ?thesis by simp
qed

section \<open>Running the batch again\<close>

lemma upsert_twice_columns:
  assumes "cols (upd2 new1) = cols new1" and "\<And>v. cols (upd2 (upd1 v)) = cols (upd1 v)"
  shows "map (\<lambda>(k, v). (k, cols v)) (upsert k new2 upd2 (upsert k new1 upd1 rows))
       = map (\<lambda>(k, v). (k, cols v)) (upsert k new1 upd1 rows)"
  by (induction rows) (auto simp: assms)

lemma txn_args_cases:
  fixes args :: txn_args
  obtains tid acc p amt d py m ta pend
  where "args = (tid, acc, p, amt, d, py, m, ta, pend)"
  by (metis surj_pair)

lemma txn_loop_Cons_Inr:
  assumes "txn_loop e account_id (t # ts) c cnt = (c', Inr n)"
  obtains args c1 where "txn_params e account_id t = Inr args"
    and "execute_txn_upsert e c args = Inr (c1, 1)"
    and "txn_loop e account_id ts c1 (cnt + 1) = (c', Inr n)"
proof -
  from assms obtain args where args: "txn_params e account_id t = Inr args"
    by (auto split: sum.splits)
  with assms obtain c1 rc where step: "execute_txn_upsert e c args = Inr (c1, rc)"
    and rest: "txn_loop e account_id ts c1 (cnt + rc) = (c', Inr n)"
    by (auto split: sum.splits)
  from execute_txn_upsert_frame(5) [OF step] have "rc = 1" .
  with args step rest that show thesis by simp
qed

lemma txn_loop_frame:
  "accounts (work (fst (txn_loop e account_id ts c cnt))) = accounts (work c)
   \<and> account_snapshots (work (fst (txn_loop e account_id ts c cnt)))
       = account_snapshots (work c)
   \<and> now (fst (txn_loop e account_id ts c cnt)) = now c"
proof (induction ts arbitrary: c cnt)
  case Nil
  then show ?case by simp
next
  case (Cons t ts)
  show ?case
  proof (cases "txn_params e account_id t")
    case (Inl err)
    then show ?thesis by simp
  next
    case (Inr args)
    show ?thesis
    proof (cases "execute_txn_upsert e c args")
      case (Inl err)
      with Inr show ?thesis by simp
    next
      case step: (Inr cr)
      obtain c1 rc where cr: "cr = (c1, rc)" by (cases cr)
      from execute_txn_upsert_frame [OF step [unfolded cr]] Cons.IH [of c1 "cnt + rc"]
      show ?thesis using Inr step cr by simp
    qed
  qed
qed

text \<open>With the account in place the outcome of the loop does not depend on the tables.\<close>

lemma txn_params_account:
  "txn_params e account_id t = Inr args \<Longrightarrow> fst (snd args) = account_id"
  by (auto dest: txn_params_Inr)

lemma execute_txn_upsert_outcome:
  assumes "references_account (work c) (fst (snd args))"
    and "references_account (work c') (fst (snd args))"
  shows "(\<exists>err. execute_txn_upsert e c args = Inl err \<and> execute_txn_upsert e c' args = Inl err)
       \<or> (\<exists>c1 c1'. execute_txn_upsert e c args = Inr (c1, 1)
             \<and> execute_txn_upsert e c' args = Inr (c1', 1))"
proof -
  obtain tid acc p amt d py m ta pend where args: "args = (tid, acc, p, amt, d, py, m, ta, pend)"
    by (rule txn_args_cases)
  from assms show ?thesis
    unfolding args by (auto split: option.splits)
qed

lemma txn_loop_outcome:
  assumes "references_account (work c) account_id"
    and "references_account (work c') account_id"
  shows "snd (txn_loop e account_id ts c cnt) = snd (txn_loop e account_id ts c' cnt)"
  using assms
proof (induction ts arbitrary: c c' cnt)
  case Nil
  then show ?case by simp
next
  case (Cons t ts)
  show ?case
  proof (cases "txn_params e account_id t")
    case (Inl err)
    then show ?thesis by simp
  next
    case (Inr args)
    from txn_params_account [OF Inr] Cons.prems
    have "references_account (work c) (fst (snd args))"
      and "references_account (work c') (fst (snd args))"
      by simp_all
    from execute_txn_upsert_outcome [OF this, of e] show ?thesis
    proof (elim disjE exE conjE)
      fix err
      assume "execute_txn_upsert e c args = Inl err" "execute_txn_upsert e c' args = Inl err"
      with Inr show ?thesis by simp
    next
      fix c1 c1'
      assume steps: "execute_txn_upsert e c args = Inr (c1, 1)"
        "execute_txn_upsert e c' args = Inr (c1', 1)"
      from execute_txn_upsert_frame(3) [OF steps(1)] execute_txn_upsert_frame(3) [OF steps(2)]
        Cons.prems
      have "references_account (work c1) account_id"
        and "references_account (work c1') account_id"
        by (simp_all add: references_account_def)
      from Cons.IH [OF this, of "cnt + 1"] Inr steps show ?thesis by simp
    qed
  qed
qed

lemma execute_txn_upsert_table:
  assumes "execute_txn_upsert e c (tid, acc, p, amt, d, py, m, ta, pend) = Inr (c', rc)"
  obtains new upd where "transactions (work c') = upsert tid new upd (transactions (work c))"
  using execute_txn_upsert_Inr [OF assms] by auto

text \<open>A batch that went through leaves every id of the batch in the table.\<close>

lemma txn_loop_keys_grow:
  assumes "txn_loop e account_id ts c cnt = (c', Inr n)"
  shows "fst ` set (transactions (work c)) \<subseteq> fst ` set (transactions (work c'))"
  using assms
proof (induction ts arbitrary: c cnt)
  case Nil
  then show ?case by simp
next
  case (Cons t ts)
  from Cons.prems obtain args c1 where args: "txn_params e account_id t = Inr args"
    and step: "execute_txn_upsert e c args = Inr (c1, 1)"
    and rest: "txn_loop e account_id ts c1 (cnt + 1) = (c', Inr n)"
    by (rule txn_loop_Cons_Inr)
  obtain tid acc p amt d py m ta pend where a: "args = (tid, acc, p, amt, d, py, m, ta, pend)"
    by (rule txn_args_cases)
  from step [unfolded a] obtain new upd where
    "transactions (work c1) = upsert tid new upd (transactions (work c))"
    by (rule execute_txn_upsert_table)
  then have "fst ` set (transactions (work c)) \<subseteq> fst ` set (transactions (work c1))"
    by (simp add: set_keys_upsert subset_insertI)
  with Cons.IH [OF rest] show ?case by blast
qed

lemma txn_loop_ids_present:
  assumes "txn_loop e account_id ts c cnt = (c', Inr n)" and "u \<in> set ts"
  shows "\<exists>k. getitem u ''id'' = Inr k \<and> k \<in> fst ` set (transactions (work c'))"
  using assms
proof (induction ts arbitrary: c cnt)
  case Nil
  then show ?case by simp
next
  case (Cons t ts)
  from Cons.prems(1) obtain args c1 where args: "txn_params e account_id t = Inr args"
    and step: "execute_txn_upsert e c args = Inr (c1, 1)"
    and rest: "txn_loop e account_id ts c1 (cnt + 1) = (c', Inr n)"
    by (rule txn_loop_Cons_Inr)
  show ?case
  proof (cases "u = t")
    case True
    obtain tid acc p amt d py m ta pend where a: "args = (tid, acc, p, amt, d, py, m, ta, pend)"
      by (rule txn_args_cases)
    from txn_params_Inr [OF args] a have "getitem t ''id'' = Inr tid"
      by (auto simp: getitem_dict)
    moreover from step [unfolded a] obtain new upd where
      "transactions (work c1) = upsert tid new upd (transactions (work c))"
      by (rule execute_txn_upsert_table)
    then have "tid \<in> fst ` set (transactions (work c1))"
      by (simp add: set_keys_upsert)
    with txn_loop_keys_grow [OF rest] have "tid \<in> fst ` set (transactions (work c'))"
      by blast
    ultimately show ?thesis using True by blast
  next
    case False
    with Cons.prems(2) have "u \<in> set ts" by simp
    from Cons.IH [OF rest this] show ?thesis .
  qed
qed

lemma txn_loop_keys_kept:
  assumes "txn_loop e account_id ts c cnt = (c', Inr n)"
    and "\<forall>u\<in>set ts. \<forall>k. getitem u ''id'' = Inr k \<longrightarrow> k \<in> fst ` set (transactions (work c))"
  shows "map fst (transactions (work c')) = map fst (transactions (work c))"
  using assms
proof (induction ts arbitrary: c cnt)
  case Nil
  then show ?case by simp
next
  case (Cons t ts)
  from Cons.prems(1) obtain args c1 where args: "txn_params e account_id t = Inr args"
    and step: "execute_txn_upsert e c args = Inr (c1, 1)"
    and rest: "txn_loop e account_id ts c1 (cnt + 1) = (c', Inr n)"
    by (rule txn_loop_Cons_Inr)
  obtain tid acc p amt d py m ta pend where a: "args = (tid, acc, p, amt, d, py, m, ta, pend)"
    by (rule txn_args_cases)
  from txn_params_Inr [OF args] a have "getitem t ''id'' = Inr tid"
    by (auto simp: getitem_dict)
  with Cons.prems(2) have "tid \<in> fst ` set (transactions (work c))" by simp
  moreover from step [unfolded a] obtain new upd where
    "transactions (work c1) = upsert tid new upd (transactions (work c))"
    by (rule execute_txn_upsert_table)
  ultimately have keys: "map fst (transactions (work c1)) = map fst (transactions (work c))"
    by (simp add: upsert_keys_present)
  then have "fst ` set (transactions (work c1)) = fst ` set (transactions (work c))"
    by (metis set_map)
  with Cons.prems(2) have "\<forall>u\<in>set ts. \<forall>k. getitem u ''id'' = Inr k \<longrightarrow>
      k \<in> fst ` set (transactions (work c1))"
    by simp
  from Cons.IH [OF rest this] keys show ?case by simp
qed

lemma update_transactions_table_frame:
  "accounts (store (fst (update_transactions_table e aid ts w))) = accounts (store w)
   \<and> account_snapshots (store (fst (update_transactions_table e aid ts w)))
       = account_snapshots (store w)
   \<and> opened (fst (update_transactions_table e aid ts w)) = Suc (opened w)
   \<and> live (fst (update_transactions_table e aid ts w)) = live w"
proof -
  let ?c0 = "\<lparr>work = store w, saved = store w, now = clock e (opened w)\<rparr>"
  obtain c1 r where loop: "txn_loop e aid ts ?c0 0 = (c1, r)"
    by (cases "txn_loop e aid ts ?c0 0")
  from txn_loop_frame [of e aid ts ?c0 0] loop
  have "accounts (work c1) = accounts (store w)"
    and "account_snapshots (work c1) = account_snapshots (store w)"
    by simp_all
  with loop show ?thesis
    by (cases r) (simp_all add: update_transactions_table_eq)
qed

lemma update_transactions_table_Inl:
  "update_transactions_table e aid ts w = (w', Inl err) \<Longrightarrow> store w' = store w"
  by (auto simp: update_transactions_table_eq split: prod.splits sum.splits)

lemma batch_again:
  assumes x: "references_account (store x) aid" and y: "references_account (store y) aid"
    and same: "transactions (store y)
                 = transactions (store (fst (update_transactions_table e aid ts x)))"
  shows "map fst (transactions (store (fst (update_transactions_table e aid ts y))))
           = map fst (transactions (store y))
       \<and> (\<forall>err. snd (update_transactions_table e aid ts x) = Inl err
             \<longleftrightarrow> snd (update_transactions_table e aid ts y) = Inl err)"
proof -
  let ?cx = "\<lparr>work = store x, saved = store x, now = clock e (opened x)\<rparr>"
  let ?cy = "\<lparr>work = store y, saved = store y, now = clock e (opened y)\<rparr>"
  obtain c1 r1 where lx: "txn_loop e aid ts ?cx 0 = (c1, r1)"
    by (cases "txn_loop e aid ts ?cx 0")
  obtain c2 r2 where ly: "txn_loop e aid ts ?cy 0 = (c2, r2)"
    by (cases "txn_loop e aid ts ?cy 0")
  from txn_loop_outcome [of ?cx aid ?cy e ts 0] x y lx ly have r: "r2 = r1"
    by simp
  show ?thesis
  proof (cases r1)
    case (Inl err)
    with lx ly r show ?thesis
      by (simp add: update_transactions_table_eq)
  next
    case (Inr n)
    with lx same have tables: "transactions (work ?cy) = transactions (work c1)"
      by (simp add: update_transactions_table_eq)
    have "\<forall>u\<in>set ts. \<forall>k. getitem u ''id'' = Inr k \<longrightarrow>
        k \<in> fst ` set (transactions (work ?cy))"
    proof (intro ballI allI impI)
      fix u k
      assume "u \<in> set ts" and k: "getitem u ''id'' = Inr k"
      from txn_loop_ids_present [OF lx [unfolded Inr] this(1)] k
      show "k \<in> fst ` set (transactions (work ?cy))"
        unfolding tables by auto
    qed
    from txn_loop_keys_kept [OF ly [unfolded r Inr] this]
    have "map fst (transactions (work c2)) = map fst (transactions (store y))"
      by simp
    with lx ly r Inr show ?thesis
      by (simp add: update_transactions_table_eq)
  qed
qed

lemma sync_transactions_fst:
  "fst (sync_transactions e aid p w) = w
   \<or> (\<exists>ts. fst (sync_transactions e aid p w) = fst (update_transactions_table e aid ts w))"
  by (auto simp: sync_transactions_def
      split: pyval.splits option.splits sum.splits prod.splits) (metis fst_conv)+

lemma sync_transactions_frame:
  "accounts (store (fst (sync_transactions e aid p w))) = accounts (store w)
   \<and> account_snapshots (store (fst (sync_transactions e aid p w)))
       = account_snapshots (store w)"
  using sync_transactions_fst [of e aid p w] update_transactions_table_frame
  by (elim disjE exE) simp_all

lemma sync_transactions_Inl:
  "sync_transactions e aid p w = (w', Inl err) \<Longrightarrow> store w' = store w"
  by (auto simp: sync_transactions_def dest: update_transactions_table_Inl
      split: pyval.splits option.splits sum.splits prod.splits if_splits)

lemma sync_transactions_again:
  assumes x: "references_account (store x) aid" and y: "references_account (store y) aid"
    and same: "transactions (store y) = transactions (store (fst (sync_transactions e aid p x)))"
  shows "map fst (transactions (store (fst (sync_transactions e aid p y))))
           = map fst (transactions (store y))"
proof (cases p)
  case (PDict d)
  show ?thesis
  proof (cases "map_of d ''transactions''")
    case None
    with PDict show ?thesis by (simp add: sync_transactions_def)
  next
    case (Some v)
    show ?thesis
    proof (cases "truthy v")
      case False
      with PDict Some show ?thesis by (simp add: sync_transactions_def)
    next
      case True
      show ?thesis
      proof (cases "items_of v")
        case (Inl err)
        with PDict Some True show ?thesis by (simp add: sync_transactions_def)
      next
        case (Inr ts)
        have fst_x: "fst (sync_transactions e aid p x) = fst (update_transactions_table e aid ts x)"
          and fst_y: "fst (sync_transactions e aid p y) = fst (update_transactions_table e aid ts y)"
          using PDict Some True Inr
          by (auto simp: sync_transactions_def split: prod.splits sum.splits)
        from batch_again [OF x y same [unfolded fst_x]] show ?thesis
          unfolding fst_y by blast
      qed
    qed
  qed
qed (simp_all add: sync_transactions_def)

section \<open>One account, step by step\<close>

lemma sync_account_tables:
  assumes args: "account_args e p = Inr (aid, name, cur, bal, av, bd)"
    and ts: "to_timestamp e bd = Some ts"
    and okA: "accounts_ok e aid name cur bal av ts"
  shows "accounts (store (fst (sync_account_from_api e p w))) =
           upsert aid (account_values name cur bal av ts (clock e (opened w)))
             (account_set name bal av ts (clock e (opened w))) (accounts (store w))"
    and "account_snapshots (store (fst (sync_account_from_api e p w))) =
           (if snapshots_ok e aid bal av ts
            then upsert (aid, ts) (snapshot_values bal av (clock e (Suc (opened w))))
                   (snapshot_set bal av (clock e (Suc (opened w))))
                   (account_snapshots (store w))
            else account_snapshots (store w))"
    and "snapshots_ok e aid bal av ts \<Longrightarrow>
           \<exists>wB. references_account (store wB) aid
                \<and> transactions (store wB) = transactions (store w)
                \<and> accounts (store wB) = accounts (store (fst (sync_account_from_api e p w)))
                \<and> transactions (store (fst (sync_account_from_api e p w)))
                    = transactions (store (fst (sync_transactions e aid p wB)))"
    and "\<not> snapshots_ok e aid bal av ts \<Longrightarrow>
           transactions (store (fst (sync_account_from_api e p w))) = transactions (store w)"
    and "snapshots_ok e aid bal av ts \<Longrightarrow>
           snd (sync_account_from_api e p w) = Inl err \<Longrightarrow>
           transactions (store (fst (sync_account_from_api e p w))) = transactions (store w)"
proof -
  let ?wA = "w\<lparr>store := (store w)\<lparr>accounts :=
                upsert aid (account_values name cur bal av ts (clock e (opened w)))
                  (account_set name bal av ts (clock e (opened w))) (accounts (store w))\<rparr>,
              opened := Suc (opened w)\<rparr>"
  let ?wB = "?wA\<lparr>store := (store ?wA)\<lparr>account_snapshots :=
                upsert (aid, ts) (snapshot_values bal av (clock e (Suc (opened w))))
                  (snapshot_set bal av (clock e (Suc (opened w))))
                  (account_snapshots (store w))\<rparr>,
              opened := Suc (Suc (opened w))\<rparr>"
  have A: "update_accounts_table e aid name cur bal av bd w = (?wA, Inr 1)"
    using ts okA by (simp add: update_accounts_table_eq)
  have refA: "references_account (store ?wA) aid"
    by (simp add: references_account_def set_keys_upsert)
  have B: "update_account_snapshots_table e aid bal av bd ?wA =
      (if snapshots_ok e aid bal av ts then (?wB, Inr 1)
       else (?wA\<lparr>opened := Suc (Suc (opened w))\<rparr>, Inl DatabaseError))"
    using ts refA by (simp add: update_account_snapshots_table_eq)
  have run: "sync_account_from_api e p w =
      (if snapshots_ok e aid bal av ts then sync_transactions e aid p ?wB
       else (?wA\<lparr>opened := Suc (Suc (opened w))\<rparr>, Inl DatabaseError))"
    by (simp add: sync_account_from_api_def args A B)
  have refB: "references_account (store ?wB) aid"
    by (simp add: references_account_def set_keys_upsert)
  note frame = sync_transactions_frame [of e aid p ?wB]
  show "accounts (store (fst (sync_account_from_api e p w))) =
           upsert aid (account_values name cur bal av ts (clock e (opened w)))
             (account_set name bal av ts (clock e (opened w))) (accounts (store w))"
    using frame by (simp add: run)
  show "account_snapshots (store (fst (sync_account_from_api e p w))) =
           (if snapshots_ok e aid bal av ts
            then upsert (aid, ts) (snapshot_values bal av (clock e (Suc (opened w))))
                   (snapshot_set bal av (clock e (Suc (opened w))))
                   (account_snapshots (store w))
            else account_snapshots (store w))"
    using frame by (simp add: run)
  show "\<exists>wB. references_account (store wB) aid
                \<and> transactions (store wB) = transactions (store w)
                \<and> accounts (store wB) = accounts (store (fst (sync_account_from_api e p w)))
                \<and> transactions (store (fst (sync_account_from_api e p w)))
                    = transactions (store (fst (sync_transactions e aid p wB)))"
    if "snapshots_ok e aid bal av ts"
  proof (intro exI conjI)
    show "references_account (store ?wB) aid" by (rule refB)
    show "transactions (store ?wB) = transactions (store w)" by simp
    show "accounts (store ?wB) = accounts (store (fst (sync_account_from_api e p w)))"
      using that frame by (simp add: run)
    show "transactions (store (fst (sync_account_from_api e p w)))
        = transactions (store (fst (sync_transactions e aid p ?wB)))"
      using that by (simp add: run)
  qed
  show "transactions (store (fst (sync_account_from_api e p w))) = transactions (store w)"
    if "\<not> snapshots_ok e aid bal av ts"
    using that by (simp add: run)
  show "transactions (store (fst (sync_account_from_api e p w))) = transactions (store w)"
    if "snapshots_ok e aid bal av ts" "snd (sync_account_from_api e p w) = Inl err"
  proof -
    from that have "sync_transactions e aid p ?wB
        = (fst (sync_account_from_api e p w), Inl err)"
      by (simp add: run prod_eq_iff)
    from sync_transactions_Inl [OF this] show ?thesis by simp
  qed
qed

lemma sync_account_not_started:
  assumes "account_args e p = Inl err \<or>
           (\<exists>aid name cur bal av bd. account_args e p = Inr (aid, name, cur, bal, av, bd)
              \<and> (to_timestamp e bd = None
                  \<or> (\<exists>ts. to_timestamp e bd = Some ts \<and> \<not> accounts_ok e aid name cur bal av ts)))"
  shows "store (fst (sync_account_from_api e p w)) = store w"
  using assms
  by (auto simp: sync_account_from_api_def update_accounts_table_eq)

lemma sync_loop_append:
  "sync_loop e (xs @ ys) w =
     (case sync_loop e xs w of
        (w', Inl err) \<Rightarrow> (w', Inl err)
      | (w', Inr u) \<Rightarrow> sync_loop e ys w')"
  by (induction xs arbitrary: w) (auto split: prod.splits sum.splits)

lemma account_args_id:
  "account_args e p = Inr (aid, name, cur, bal, av, bd) \<Longrightarrow> getitem p ''id'' = Inr aid"
  by (auto simp: account_args_def split: sum.splits)

lemma sync_account_cases:
  obtains (idle) "\<And>w. store (fst (sync_account_from_api e p w)) = store w"
  | (runs) aid name cur bal av bd ts where
      "account_args e p = Inr (aid, name, cur, bal, av, bd)"
      "to_timestamp e bd = Some ts" "accounts_ok e aid name cur bal av ts"
proof (cases "account_args e p")
  case (Inl err)
  from sync_account_not_started [of e p, OF disjI1, OF Inl] idle show ?thesis
    by simp
next
  case (Inr a)
  obtain aid name cur bal av bd where a: "a = (aid, name, cur, bal, av, bd)"
    by (metis surj_pair)
  show ?thesis
  proof (cases "to_timestamp e bd")
    case None
    with Inr a have "store (fst (sync_account_from_api e p w)) = store w" for w
      by (intro sync_account_not_started) auto
    with idle show ?thesis by simp
  next
    case (Some ts)
    show ?thesis
    proof (cases "accounts_ok e aid name cur bal av ts")
      case True
      with Inr a Some runs show ?thesis by simp
    next
      case False
      with Inr a Some have "store (fst (sync_account_from_api e p w)) = store w" for w
        by (intro sync_account_not_started) auto
      with idle show ?thesis by simp
    qed
  qed
qed

lemma sync_account_other_rows:
  assumes "getitem p ''id'' \<noteq> Inr k"
  shows "map_of (accounts (store (fst (sync_account_from_api e p w)))) k
           = map_of (accounts (store w)) k
       \<and> map_of (account_snapshots (store (fst (sync_account_from_api e p w)))) (k, t)
           = map_of (account_snapshots (store w)) (k, t)"
proof (cases rule: sync_account_cases [of e p])
  case idle
  then show ?thesis by simp
next
  case (runs aid name cur bal av bd ts)
  from account_args_id [OF runs(1)] assms have "k \<noteq> aid" by auto
  with sync_account_tables(1,2) [OF runs, of w] show ?thesis
    by (simp add: map_of_upsert)
qed

lemma sync_account_Inl_transactions:
  assumes "sync_account_from_api e p w = (w', Inl err)"
  shows "transactions (store w') = transactions (store w)"
proof (cases rule: sync_account_cases [of e p])
  case idle
  from idle [of w] assms show ?thesis by simp
next
  case (runs aid name cur bal av bd ts)
  show ?thesis
  proof (cases "snapshots_ok e aid bal av ts")
    case False
    from sync_account_tables(4) [OF runs False, of w] assms show ?thesis by simp
  next
    case True
    from sync_account_tables(5) [OF runs True, of w] assms show ?thesis by simp
  qed
qed

section \<open>Every sync keeps the keys of the schema\<close>

lemma set_upsert:
  assumes "(k', v') \<in> set (upsert k new upd rows)"
  shows "(k', v') \<in> set rows
       \<or> (k' = k \<and> k \<notin> fst ` set rows \<and> v' = new)
       \<or> (k' = k \<and> (\<exists>v. (k, v) \<in> set rows \<and> v' = upd v))"
  using assms
proof (induction rows)
  case Nil
  then show ?case by simp
next
  case (Cons p rows)
  obtain a b where p: "p = (a, b)" by (cases p)
  show ?case
  proof (cases "a = k")
    case True
    with Cons.prems p show ?thesis by auto
  next
    case False
    with Cons.prems p have "(k', v') = (a, b) \<or> (k', v') \<in> set (upsert k new upd rows)"
      by simp
    then show ?thesis
    proof
      assume "(k', v') = (a, b)"
      with p show ?thesis by simp
    next
      assume "(k', v') \<in> set (upsert k new upd rows)"
      from Cons.IH [OF this] False p show ?thesis by auto
    qed
  qed
qed

lemma execute_txn_upsert_owned:
  assumes step: "execute_txn_upsert e c args = Inr (c1, rc)"
    and owned: "\<forall>(tid, t) \<in> set (transactions (work c)).
                  references_account (work c) (txn_account_id t)"
  shows "\<forall>(tid, t) \<in> set (transactions (work c1)).
           references_account (work c1) (txn_account_id t)"
proof -
  obtain tid acc p amt d py m ta pend where a: "args = (tid, acc, p, amt, d, py, m, ta, pend)"
    by (rule txn_args_cases)
  from execute_txn_upsert_Inr [OF step [unfolded a]]
  obtain ts where ts: "to_timestamp e ta = Some ts"
    and c1: "c1 = c\<lparr>work := (work c)\<lparr>transactions :=
                 upsert tid (txn_values acc p amt d py m ts pend (now c))
                   (txn_set p amt d py m ts pend (now c))
                   (transactions (work c))\<rparr>\<rparr>"
    by blast
  from step [unfolded a] ts
  have fk: "tid \<notin> fst ` set (transactions (work c)) \<Longrightarrow> references_account (work c) acc"
    by (auto split: if_splits)
  have ref: "references_account (work c1) x = references_account (work c) x" for x
    by (simp add: c1 references_account_def)
  show ?thesis
  proof (intro ballI, clarify)
    fix k t
    assume "(k, t) \<in> set (transactions (work c1))"
    then have "(k, t) \<in> set (upsert tid (txn_values acc p amt d py m ts pend (now c))
                   (txn_set p amt d py m ts pend (now c)) (transactions (work c)))"
      by (simp add: c1)
    from set_upsert [OF this] show "references_account (work c1) (txn_account_id t)"
    proof (elim disjE conjE exE)
      assume "(k, t) \<in> set (transactions (work c))"
      with owned show ?thesis by (auto simp: ref)
    next
      assume "tid \<notin> fst ` set (transactions (work c))"
        and "t = txn_values acc p amt d py m ts pend (now c)"
      with fk show ?thesis by (simp add: ref txn_values_def)
    next
      fix v
      assume "(tid, v) \<in> set (transactions (work c))"
        and "t = txn_set p amt d py m ts pend (now c) v"
      with owned show ?thesis by (auto simp: ref txn_set_def)
    qed
  qed
qed

lemma txn_loop_owned:
  assumes "\<forall>(tid, t) \<in> set (transactions (work c)).
             references_account (work c) (txn_account_id t)"
  shows "\<forall>(tid, t) \<in> set (transactions (work (fst (txn_loop e aid ts c cnt)))).
           references_account (work (fst (txn_loop e aid ts c cnt))) (txn_account_id t)"
  using assms
proof (induction ts arbitrary: c cnt)
  case Nil
  then show ?case by simp
next
  case (Cons t ts)
  show ?case
  proof (cases "txn_params e aid t")
    case (Inl err)
    with Cons.prems show ?thesis by simp
  next
    case (Inr args)
    show ?thesis
    proof (cases "execute_txn_upsert e c args")
      case (Inl err)
      with Inr Cons.prems show ?thesis by simp
    next
      case step: (Inr cr)
      obtain c1 rc where cr: "cr = (c1, rc)" by (cases cr)
      from Cons.IH [OF execute_txn_upsert_owned [OF step [unfolded cr] Cons.prems],
          of "cnt + rc"]
      show ?thesis using Inr step cr by simp
    qed
  qed
qed

lemma update_transactions_table_owned:
  assumes "\<forall>(tid, t) \<in> set (transactions (store w)).
             references_account (store w) (txn_account_id t)"
  shows "\<forall>(tid, t) \<in> set (transactions (store (fst (update_transactions_table e aid ts w)))).
           references_account (store (fst (update_transactions_table e aid ts w)))
             (txn_account_id t)"
proof -
  let ?c0 = "\<lparr>work = store w, saved = store w, now = clock e (opened w)\<rparr>"
  obtain c1 r where loop: "txn_loop e aid ts ?c0 0 = (c1, r)"
    by (cases "txn_loop e aid ts ?c0 0")
  from txn_loop_owned [of ?c0 e aid ts 0] assms loop
  have "\<forall>(tid, t) \<in> set (transactions (work c1)).
          references_account (work c1) (txn_account_id t)"
    by simp
  with loop assms show ?thesis
    by (cases r) (simp_all add: update_transactions_table_eq)
qed

lemma sync_transactions_owned:
  assumes "\<forall>(tid, t) \<in> set (transactions (store w)).
             references_account (store w) (txn_account_id t)"
  shows "\<forall>(tid, t) \<in> set (transactions (store (fst (sync_transactions e aid p w)))).
           references_account (store (fst (sync_transactions e aid p w))) (txn_account_id t)"
  using sync_transactions_fst [of e aid p w] update_transactions_table_owned [OF assms] assms
  by (elim disjE exE) simp_all

lemma sync_account_keeps_keys:
  assumes "keys_hold (store w)"
  shows "keys_hold (store (fst (sync_account_from_api e p w)))"
proof (cases rule: sync_account_cases [of e p])
  case idle
  with assms show ?thesis by simp
next
  case (runs aid name cur bal av bd ts)
  let ?w' = "fst (sync_account_from_api e p w)"
  note t = sync_account_tables [OF runs]
  from assms have d: "distinct (map fst (accounts (store ?w')))"
    unfolding t(1) [of w] keys_hold_def by (simp add: distinct_keys_upsert)
  have grow: "references_account (store w) x \<Longrightarrow> references_account (store ?w') x" for x
    unfolding references_account_def t(1) [of w] by (simp add: set_keys_upsert)
  have "\<forall>(tid, t) \<in> set (transactions (store ?w')).
          references_account (store ?w') (txn_account_id t)"
  proof (cases "snapshots_ok e aid bal av ts")
    case False
    from t(4) [OF False, of w] assms grow show ?thesis
      by (auto simp: keys_hold_def)
  next
    case True
    from t(3) [OF True, of w] obtain wB where
      same: "transactions (store wB) = transactions (store w)"
      and accts: "accounts (store wB) = accounts (store ?w')"
      and run: "transactions (store ?w')
                  = transactions (store (fst (sync_transactions e aid p wB)))"
      by blast
    have ref: "references_account (store wB) x = references_account (store ?w') x" for x
      by (simp add: references_account_def accts)
    from assms grow have "\<forall>(tid, t) \<in> set (transactions (store wB)).
        references_account (store wB) (txn_account_id t)"
      by (auto simp: keys_hold_def same ref)
    from sync_transactions_owned [OF this, of e aid p]
    show ?thesis
      using sync_transactions_frame [of e aid p wB]
      by (simp add: run references_account_def accts)
  qed
  with d show ?thesis by (simp add: keys_hold_def)
qed

lemma sync_loop_keeps_keys:
  "keys_hold (store w) \<Longrightarrow> keys_hold (store (fst (sync_loop e ps w)))"
proof (induction ps arbitrary: w)
  case Nil
  then show ?case by simp
next
  case (Cons p ps)
  from sync_account_keeps_keys [OF Cons.prems, of e p]
  have "keys_hold (store (fst (sync_account_from_api e p w)))" .
  from Cons.IH [OF this] this show ?case
    by (auto split: prod.splits sum.splits)
qed

lemma sync_all_accounts_keeps_keys:
  "keys_hold (store w) \<Longrightarrow> keys_hold (store (fst (sync_all_accounts e api_response w)))"
  by (auto simp: sync_all_accounts_def sync_loop_keeps_keys split: sum.splits)

lemma keys_hold_fresh: "keys_hold (store fresh_world)"
  by (simp add: keys_hold_def fresh_world_def empty_db_def)

section \<open>Unfolding the examples\<close>

lemmas example_defs = example_env_def usd_world_def txn_lunch_def txn_coffee_def
  txn_no_posted_def

lemmas run_defs = update_accounts_table_eq update_account_snapshots_table_eq
  update_transactions_table_eq txn_params_def getitem_def dict_get_def float_py_def
  eq_one_def references_account_def account_values_def account_set_def snapshot_values_def
  snapshot_set_def txn_values_def txn_set_def Let_def

lemmas sync_defs = sync_account_from_api_def account_args_def sync_transactions_def
  items_of_def truthy_def

lemma payload_a_once:
  "sync_account_from_api example_env payload_a usd_world =
     (\<lparr>store =
         \<lparr>accounts = [(PStr ''A'',
            \<lparr>acct_name = PStr ''Checking'', acct_currency = PStr ''USD'',
             acct_balance = 100, acct_available_balance = 100,
             acct_balance_date = 5000, updated_at = Now 1001\<rparr>)],
          account_snapshots = [((PStr ''A'', 5000),
            \<lparr>snap_balance = 100, snap_available_balance = 100,
             snapshot_taken_at = Column_default 1002\<rparr>)],
          transactions =
            [(PStr ''t1'', txn_values (PStr ''A'') True (- 12) (PStr []) (PStr []) (PStr [])
                             4000 (PBool False) 1003),
             (PStr ''t2'', txn_values (PStr ''A'') False (- 3) (PStr ''Coffee'')
                             (PStr ''Cafe'') PNone 4100 (PBool True) 1003)]\<rparr>,
       opened = 4, live = 0\<rparr>, Inr 4)"
  by (simp add: payload_a_def sync_defs example_defs run_defs)

lemma payload_a_twice:
  "sync_account_from_api example_env payload_a
     (fst (sync_account_from_api example_env payload_a usd_world)) =
     (\<lparr>store =
         \<lparr>accounts = [(PStr ''A'',
            \<lparr>acct_name = PStr ''Checking'', acct_currency = PStr ''USD'',
             acct_balance = 100, acct_available_balance = 100,
             acct_balance_date = 5000, updated_at = Now 1004\<rparr>)],
          account_snapshots = [((PStr ''A'', 5000),
            \<lparr>snap_balance = 100, snap_available_balance = 100,
             snapshot_taken_at = Now 1005\<rparr>)],
          transactions =
            [(PStr ''t1'', (txn_values (PStr ''A'') True (- 12) (PStr []) (PStr []) (PStr [])
                             4000 (PBool False) 1003)\<lparr>last_updated_at := Now 1006\<rparr>),
             (PStr ''t2'', (txn_values (PStr ''A'') False (- 3) (PStr ''Coffee'')
                             (PStr ''Cafe'') PNone 4100 (PBool True) 1003)
                             \<lparr>last_updated_at := Now 1006\<rparr>)]\<rparr>,
       opened = 7, live = 0\<rparr>, Inr 4)"
  unfolding payload_a_once
  by (simp add: payload_a_def sync_defs example_defs run_defs)

lemma payload_a_fresh:
  "sync_account_from_api example_env payload_a fresh_world =
     (\<lparr>store =
         \<lparr>accounts = [(PStr ''A'',
            account_values (PStr ''Checking'') (PStr ''USD'') 100 100 5000 1000)],
          account_snapshots = [((PStr ''A'', 5000), snapshot_values 100 100 1001)],
          transactions =
            [(PStr ''t1'', txn_values (PStr ''A'') True (- 12) (PStr []) (PStr []) (PStr [])
                             4000 (PBool False) 1002),
             (PStr ''t2'', txn_values (PStr ''A'') False (- 3) (PStr ''Coffee'')
                             (PStr ''Cafe'') PNone 4100 (PBool True) 1002)]\<rparr>,
       opened = 3, live = 0\<rparr>, Inr 4)"
  by (simp add: payload_a_def sync_defs example_defs run_defs fresh_world_def empty_db_def)

lemma payload_b_after_a:
  "sync_account_from_api example_env payload_b
     (fst (sync_account_from_api example_env payload_a fresh_world)) =
     (\<lparr>store =
         \<lparr>accounts = [(PStr ''A'',
            account_values (PStr ''Checking'') (PStr ''USD'') 100 100 5000 1000),
           (PStr ''B'',
            account_values (PStr ''Savings'') (PStr ''USD'') 500 500 5000 1003)],
          account_snapshots = [((PStr ''A'', 5000), snapshot_values 100 100 1001),
            ((PStr ''B'', 5000), snapshot_values 500 500 1004)],
          transactions =
            [(PStr ''t1'', txn_values (PStr ''A'') True (- 12) (PStr []) (PStr []) (PStr [])
                             4000 (PBool False) 1002),
             (PStr ''t2'', txn_values (PStr ''A'') False (- 3) (PStr ''Coffee'')
                             (PStr ''Cafe'') PNone 4100 (PBool True) 1002)]\<rparr>,
       opened = 6, live = 0\<rparr>, Inl (KeyError ''posted''))"
  unfolding payload_a_fresh
  by (simp add: payload_b_def sync_defs example_defs run_defs)

section \<open>The claims\<close>

text \<open>
  Claim C9. Every database unit of work commits its changes when the work completes
  without exception, rolls back all its changes and re-raises when an exception occurs,
  and releases the connection on every exit path. For any body of a \<^verbatim>\<open>with get_db()\<close>
  block that leaves the connection as \<open>c1\<close> with the outcome \<open>r\<close>: the caller gets \<open>r\<close>;
  no connection stays open; on a result the committed tables are the body's working
  copy; on an exception they are the last committed copy, which is the tables as they
  were when the body itself committed nothing.
\<close>

theorem get_db_unit_of_work:
  assumes "body (snd (connect e w)) = (c1, r)"
  shows "snd (get_db e body w) = r
       \<and> live (fst (get_db e body w)) = live w
       \<and> (\<forall>v. r = Inr v \<longrightarrow> store (fst (get_db e body w)) = work c1)
       \<and> (\<forall>err. r = Inl err \<longrightarrow> store (fst (get_db e body w)) = saved c1)
       \<and> (\<forall>err. r = Inl err \<longrightarrow> saved c1 = store w \<longrightarrow>
             store (fst (get_db e body w)) = store w)"
  using assms
  by (cases r) (simp_all add: get_db_def connect_def close_def commit_def rollback_def)

text \<open>
  A body that empties the accounts table of \<open>usd_world\<close> and then raises: the table is
  back, the error is raised again and the connection is released. A body that empties it
  and returns: the table is empty.
\<close>

theorem get_db_unit_of_work_witness:
  "snd (get_db example_env
          (\<lambda>c. (c\<lparr>work := (work c)\<lparr>accounts := []\<rparr>\<rparr>, Inl TypeError :: error + nat))
          usd_world) = Inl TypeError
   \<and> live (fst (get_db example_env
          (\<lambda>c. (c\<lparr>work := (work c)\<lparr>accounts := []\<rparr>\<rparr>, Inl TypeError :: error + nat))
          usd_world)) = 0
   \<and> store (fst (get_db example_env
          (\<lambda>c. (c\<lparr>work := (work c)\<lparr>accounts := []\<rparr>\<rparr>, Inl TypeError :: error + nat))
          usd_world)) = store usd_world
   \<and> accounts (store (fst (get_db example_env
          (\<lambda>c. (c\<lparr>work := (work c)\<lparr>accounts := []\<rparr>\<rparr>, Inr 0 :: error + nat))
          usd_world))) = []"
proof -
  let ?raising = "\<lambda>c. (c\<lparr>work := (work c)\<lparr>accounts := []\<rparr>\<rparr>, Inl TypeError :: error + nat)"
  let ?returning = "\<lambda>c. (c\<lparr>work := (work c)\<lparr>accounts := []\<rparr>\<rparr>, Inr 0 :: error + nat)"
  let ?c0 = "snd (connect example_env usd_world)"
  let ?c1 = "?c0\<lparr>work := (work ?c0)\<lparr>accounts := []\<rparr>\<rparr>"
  have fails: "?raising ?c0 = (?c1, Inl TypeError)"
    by simp
  have returns: "?returning ?c0 = (?c1, Inr 0)"
    by simp
  have kept: "saved ?c1 = store usd_world"
    by (simp add: connect_def)
  show ?thesis
    using get_db_unit_of_work [where body = ?raising and e = example_env and w = usd_world,
        OF fails]
      get_db_unit_of_work [where body = ?returning and e = example_env and w = usd_world,
        OF returns]
      kept
    by (simp add: connect_def usd_world_def)
qed

text \<open>
  Claim C2, as the code has it. When a row with the same account ID exists, a successful
  account upsert overwrites the display name, the balance, the available balance and the
  balance-date of that row with the new values and stamps \<^verbatim>\<open>updated_at\<close> with \<^verbatim>\<open>NOW()\<close>;
  the currency code keeps the value the row had; no row is added and no other row
  changes.
\<close>

theorem account_upsert_on_conflict:
  assumes "map_of (accounts (store w)) account_id = Some old"
    and "update_accounts_table e account_id name currency balance available_balance
           balance_date w = (w', Inr n)"
  shows "map fst (accounts (store w')) = map fst (accounts (store w))
       \<and> (\<exists>ts. to_timestamp e balance_date = Some ts
             \<and> map_of (accounts (store w')) account_id =
                 Some \<lparr>acct_name = name, acct_currency = acct_currency old,
                       acct_balance = balance, acct_available_balance = available_balance,
                       acct_balance_date = ts, updated_at = Now (clock e (opened w))\<rparr>)
       \<and> (\<forall>k. k \<noteq> account_id \<longrightarrow>
             map_of (accounts (store w')) k = map_of (accounts (store w)) k)"
proof -
  from assms(1) have present: "account_id \<in> fst ` set (accounts (store w))"
    by (metis map_of_eq_None_iff option.distinct(1))
  from assms(2) obtain ts where ts: "to_timestamp e balance_date = Some ts"
    by (auto simp: update_accounts_table_eq split: option.splits)
  with assms(2) have w': "accounts (store w') =
      upsert account_id
        (account_values name currency balance available_balance ts (clock e (opened w)))
        (account_set name balance available_balance ts (clock e (opened w)))
        (accounts (store w))"
    by (auto simp: update_accounts_table_eq split: if_splits)
  have "map fst (accounts (store w')) = map fst (accounts (store w))"
    unfolding w' using present by (rule upsert_keys_present)
  moreover have "map_of (accounts (store w')) account_id =
      Some \<lparr>acct_name = name, acct_currency = acct_currency old,
            acct_balance = balance, acct_available_balance = available_balance,
            acct_balance_date = ts, updated_at = Now (clock e (opened w))\<rparr>"
    unfolding w' by (cases old) (simp add: map_of_upsert assms(1) account_set_def)
  moreover have "\<forall>k. k \<noteq> account_id \<longrightarrow>
      map_of (accounts (store w')) k = map_of (accounts (store w)) k"
    unfolding w' by (simp add: map_of_upsert)
  ultimately show ?thesis using ts by blast
qed

text \<open>
  Account A of \<open>usd_world\<close>, synced again with a new name, a new balance and the
  currency CAD: one row, the new name and balances, the currency still USD.
\<close>

theorem account_upsert_on_conflict_witness:
  "map fst (accounts (store (fst (update_accounts_table example_env (PStr ''A'')
       (PStr ''Chequing'') (PStr ''CAD'') 150 140 (PInt 6000) usd_world)))) = [PStr ''A'']
   \<and> map_of (accounts (store (fst (update_accounts_table example_env (PStr ''A'')
       (PStr ''Chequing'') (PStr ''CAD'') 150 140 (PInt 6000) usd_world)))) (PStr ''A'') =
       Some \<lparr>acct_name = PStr ''Chequing'', acct_currency = PStr ''USD'',
             acct_balance = 150, acct_available_balance = 140,
             acct_balance_date = 6000, updated_at = Now 1001\<rparr>"
proof -
  let ?old = "\<lparr>acct_name = PStr ''Checking'', acct_currency = PStr ''USD'',
               acct_balance = 100, acct_available_balance = 100,
               acct_balance_date = 5000, updated_at = Column_default 900\<rparr>"
  let ?w' = "fst (update_accounts_table example_env (PStr ''A'')
       (PStr ''Chequing'') (PStr ''CAD'') 150 140 (PInt 6000) usd_world)"
  have found: "map_of (accounts (store usd_world)) (PStr ''A'') = Some ?old"
    by (simp add: usd_world_def)
  have ran: "update_accounts_table example_env (PStr ''A'')
       (PStr ''Chequing'') (PStr ''CAD'') 150 140 (PInt 6000) usd_world = (?w', Inr 1)"
    by (simp add: example_defs run_defs)
  show ?thesis
    using account_upsert_on_conflict [OF found ran]
    by (simp add: example_env_def usd_world_def)
qed

text \<open>
  Claim C2 as stated fails on the currency code: the same upsert, asked to store CAD,
  succeeds and leaves USD in the row.
\<close>

theorem account_upsert_keeps_currency:
  "snd (update_accounts_table example_env (PStr ''A'') (PStr ''Chequing'') (PStr ''CAD'')
          150 140 (PInt 6000) usd_world) = Inr 1
   \<and> accounts (store (fst (update_accounts_table example_env (PStr ''A'') (PStr ''Chequing'')
          (PStr ''CAD'') 150 140 (PInt 6000) usd_world))) =
       [(PStr ''A'',
         \<lparr>acct_name = PStr ''Chequing'', acct_currency = PStr ''USD'',
          acct_balance = 150, acct_available_balance = 140,
          acct_balance_date = 6000, updated_at = Now 1001\<rparr>)]"
  by (simp add: example_defs run_defs)

text \<open>
  Claim C3. There is at most one snapshot row per (account ID, balance-date) pair, after
  every sequence of snapshot upserts; upserting balance-date D1 and then a distinct D2 for
  the same account leaves two rows, one per date, each with the values of its upsert;
  upserting D1 twice leaves one row, which holds the values of the latest upsert. The
  balance-dates are compared as the timestamps the server makes of them.
\<close>

theorem snapshot_time_series:
  assumes inv: "distinct (map fst (account_snapshots (store w)))"
    and first: "update_account_snapshots_table e aid b1 a1 d1 w = (w1, Inr n1)"
    and second: "update_account_snapshots_table e aid b2 a2 d2 w1 = (w2, Inr n2)"
    and t1: "to_timestamp e d1 = Some t1"
    and t2: "to_timestamp e d2 = Some t2"
  shows "distinct (map fst (account_snapshots (store w2)))
       \<and> (\<forall>calls. distinct (map fst (account_snapshots (store (foldl
             (\<lambda>w (aid, balance, available, bd).
                 fst (update_account_snapshots_table e aid balance available bd w))
             w calls)))))
       \<and> (t1 \<noteq> t2 \<longrightarrow>
            (\<exists>s1 s2.
               filter (\<lambda>r. fst r = (aid, t1)) (account_snapshots (store w2)) =
                 [((aid, t1), \<lparr>snap_balance = b1, snap_available_balance = a1,
                               snapshot_taken_at = s1\<rparr>)]
             \<and> filter (\<lambda>r. fst r = (aid, t2)) (account_snapshots (store w2)) =
                 [((aid, t2), \<lparr>snap_balance = b2, snap_available_balance = a2,
                               snapshot_taken_at = s2\<rparr>)]))
       \<and> (t1 = t2 \<longrightarrow>
            filter (\<lambda>r. fst r = (aid, t1)) (account_snapshots (store w2)) =
              [((aid, t1), \<lparr>snap_balance = b2, snap_available_balance = a2,
                            snapshot_taken_at = Now (clock e (opened w1))\<rparr>)])"
proof -
  note s1 = snapshot_success [OF first t1]
  note s2 = snapshot_success [OF second t2]
  have d1: "distinct (map fst (account_snapshots (store w1)))"
    unfolding s1 using inv by (rule distinct_keys_upsert)
  have d2: "distinct (map fst (account_snapshots (store w2)))"
    unfolding s2 using d1 by (rule distinct_keys_upsert)
  have at1: "\<exists>s. map_of (account_snapshots (store w1)) (aid, t1) =
      Some \<lparr>snap_balance = b1, snap_available_balance = a1, snapshot_taken_at = s\<rparr>"
    unfolding s1
    by (simp add: map_of_upsert snapshot_set_eq snapshot_values_def split: option.split)
  have at2: "\<exists>s. map_of (account_snapshots (store w2)) (aid, t2) =
      Some \<lparr>snap_balance = b2, snap_available_balance = a2, snapshot_taken_at = s\<rparr>"
    unfolding s2
    by (simp add: map_of_upsert snapshot_set_eq snapshot_values_def split: option.split)
  have differ: "\<exists>s1 s2.
      filter (\<lambda>r. fst r = (aid, t1)) (account_snapshots (store w2)) =
        [((aid, t1), \<lparr>snap_balance = b1, snap_available_balance = a1,
                      snapshot_taken_at = s1\<rparr>)]
    \<and> filter (\<lambda>r. fst r = (aid, t2)) (account_snapshots (store w2)) =
        [((aid, t2), \<lparr>snap_balance = b2, snap_available_balance = a2,
                      snapshot_taken_at = s2\<rparr>)]" if "t1 \<noteq> t2"
  proof -
    have "map_of (account_snapshots (store w2)) (aid, t1) =
        map_of (account_snapshots (store w1)) (aid, t1)"
      unfolding s2 using that by (simp add: map_of_upsert)
    with at1 obtain s where "map_of (account_snapshots (store w2)) (aid, t1) =
        Some \<lparr>snap_balance = b1, snap_available_balance = a1, snapshot_taken_at = s\<rparr>"
      by auto
    moreover from at2 obtain s' where "map_of (account_snapshots (store w2)) (aid, t2) =
        Some \<lparr>snap_balance = b2, snap_available_balance = a2, snapshot_taken_at = s'\<rparr>"
      by auto
    ultimately show ?thesis
      using rows_under_key [OF d2] by blast
  qed
  have same: "filter (\<lambda>r. fst r = (aid, t1)) (account_snapshots (store w2)) =
      [((aid, t1), \<lparr>snap_balance = b2, snap_available_balance = a2,
                    snapshot_taken_at = Now (clock e (opened w1))\<rparr>)]" if eq: "t1 = t2"
  proof -
    from at1 obtain s where "map_of (account_snapshots (store w1)) (aid, t2) =
        Some \<lparr>snap_balance = b1, snap_available_balance = a1, snapshot_taken_at = s\<rparr>"
      using eq by auto
    then have "map_of (account_snapshots (store w2)) (aid, t1) =
        Some \<lparr>snap_balance = b2, snap_available_balance = a2,
              snapshot_taken_at = Now (clock e (opened w1))\<rparr>"
      unfolding s2 using eq by (simp add: map_of_upsert snapshot_set_eq)
    then show ?thesis by (rule rows_under_key [OF d2])
  qed
  show ?thesis
    using d2 snapshot_keys_distinct_foldl [OF inv] differ same by blast
qed

text \<open>
  Account A of \<open>usd_world\<close>: a snapshot at 5000 and one at 6000 are two rows; a snapshot
  at 5000 and another at 5000 are one row with the second balance.
\<close>

theorem snapshot_time_series_witness:
  "account_snapshots (store (fst (update_account_snapshots_table example_env (PStr ''A'')
       150 140 (PInt 6000)
       (fst (update_account_snapshots_table example_env (PStr ''A'')
          100 90 (PInt 5000) usd_world))))) =
     [((PStr ''A'', 5000), \<lparr>snap_balance = 100, snap_available_balance = 90,
                            snapshot_taken_at = Column_default 1001\<rparr>),
      ((PStr ''A'', 6000), \<lparr>snap_balance = 150, snap_available_balance = 140,
                            snapshot_taken_at = Column_default 1002\<rparr>)]
   \<and> account_snapshots (store (fst (update_account_snapshots_table example_env (PStr ''A'')
       150 140 (PInt 5000)
       (fst (update_account_snapshots_table example_env (PStr ''A'')
          100 90 (PInt 5000) usd_world))))) =
     [((PStr ''A'', 5000), \<lparr>snap_balance = 150, snap_available_balance = 140,
                            snapshot_taken_at = Now 1002\<rparr>)]"
proof -
  let ?w1 = "fst (update_account_snapshots_table example_env (PStr ''A'')
          100 90 (PInt 5000) usd_world)"
  let ?w2 = "fst (update_account_snapshots_table example_env (PStr ''A'')
          150 140 (PInt 6000) ?w1)"
  let ?w2' = "fst (update_account_snapshots_table example_env (PStr ''A'')
          150 140 (PInt 5000) ?w1)"
  have inv: "distinct (map fst (account_snapshots (store usd_world)))"
    by (simp add: usd_world_def)
  have first: "update_account_snapshots_table example_env (PStr ''A'')
          100 90 (PInt 5000) usd_world = (?w1, Inr 1)"
    by (simp add: example_defs run_defs)
  have w1: "?w1 = \<lparr>store = \<lparr>accounts = accounts (store usd_world),
        account_snapshots = [((PStr ''A'', 5000),
           \<lparr>snap_balance = 100, snap_available_balance = 90,
            snapshot_taken_at = Column_default 1001\<rparr>)],
        transactions = []\<rparr>, opened = 2, live = 0\<rparr>"
    by (simp add: example_defs run_defs)
  have second: "update_account_snapshots_table example_env (PStr ''A'')
          150 140 (PInt 6000) ?w1 = (?w2, Inr 1)"
    unfolding w1
    by (simp add: example_defs run_defs)
  have again: "update_account_snapshots_table example_env (PStr ''A'')
          150 140 (PInt 5000) ?w1 = (?w2', Inr 1)"
    unfolding w1
    by (simp add: example_defs run_defs)
  have t1: "to_timestamp example_env (PInt 5000) = Some 5000"
    and t2: "to_timestamp example_env (PInt 6000) = Some 6000"
    by (simp_all add: example_env_def)
  show ?thesis
    using snapshot_time_series [OF inv first second t1 t2]
      snapshot_time_series [OF inv first again t1 t1]
    unfolding w1
    by (simp add: example_defs run_defs)
qed

text \<open>
  Claim C4, as the code has it. In a batch that the upsert persists, every record carries
  a \<^verbatim>\<open>posted\<close> indicator, and the row under its id (the last record of that id in
  the batch) has posted = true when the indicator equals 1 in Python's sense
  (\<open>eq_one\<close>) and posted = false for any other value. A record without the indicator
  is not persisted: the batch raises, the tables stay as they were, and where the
  record's amount and id are in order the exception is \<^verbatim>\<open>KeyError('posted')\<close>.
\<close>

theorem posted_coercion:
  assumes "update_transactions_table e account_id (pre @ PDict d # post) w = (w', r)"
    and "\<forall>u\<in>set post. getitem u ''id'' \<noteq> getitem (PDict d) ''id''"
  shows "(\<forall>n. r = Inr n \<longrightarrow>
            (\<exists>tid p row. map_of d ''id'' = Some tid \<and> map_of d ''posted'' = Some p
               \<and> map_of (transactions (store w')) tid = Some row
               \<and> posted row = eq_one p))
       \<and> (map_of d ''posted'' = None \<longrightarrow> (\<exists>err. r = Inl err) \<and> store w' = store w)
       \<and> (map_of d ''posted'' = None \<longrightarrow>
            (\<exists>a amt tid. map_of d ''amount'' = Some a \<and> float_py e a = Inr amt
               \<and> map_of d ''id'' = Some tid) \<longrightarrow>
            txn_params e account_id (PDict d) = Inl (KeyError ''posted''))"
proof -
  have ok: "\<exists>tid p row. map_of d ''id'' = Some tid \<and> map_of d ''posted'' = Some p
               \<and> map_of (transactions (store w')) tid = Some row
               \<and> posted row = eq_one p" if "r = Inr n" for n
    using batch_persists [OF assms(1) [unfolded that] assms(2)] by blast
  have absent: "(\<exists>err. r = Inl err) \<and> store w' = store w" if none: "map_of d ''posted'' = None"
  proof (cases r)
    case (Inl err)
    with assms(1) show ?thesis
      by (auto simp: update_transactions_table_eq split: prod.splits sum.splits)
  next
    case (Inr n)
    from ok [OF this] none show ?thesis by auto
  qed
  have key: "txn_params e account_id (PDict d) = Inl (KeyError ''posted'')"
    if "map_of d ''posted'' = None" "map_of d ''amount'' = Some a" "float_py e a = Inr amt"
      "map_of d ''id'' = Some tid" for a amt tid
    using that by (simp add: txn_params_def getitem_dict)
  from ok absent key show ?thesis by blast
qed

text \<open>
  A lunch with \<^verbatim>\<open>posted: 1\<close> and a coffee with \<^verbatim>\<open>posted: 0\<close>, for account A.
\<close>

theorem posted_coercion_witness:
  "map (\<lambda>(k, r). (k, posted r)) (transactions (store (fst
     (update_transactions_table example_env (PStr ''A'') [txn_lunch, txn_coffee] usd_world))))
   = [(PStr ''t1'', True), (PStr ''t2'', False)]"
proof -
  let ?w' = "fst (update_transactions_table example_env (PStr ''A'')
                [txn_lunch, txn_coffee] usd_world)"
  have ran: "update_transactions_table example_env (PStr ''A'')
      ([] @ PDict [(''id'', PStr ''t1''), (''posted'', PInt 1), (''amount'', PInt (- 12)),
                   (''transacted_at'', PInt 4000)] # [txn_coffee]) usd_world = (?w', Inr 2)"
    by (simp add: example_defs run_defs)
  have later: "\<forall>u\<in>set [txn_coffee]. getitem u ''id'' \<noteq>
      getitem (PDict [(''id'', PStr ''t1''), (''posted'', PInt 1), (''amount'', PInt (- 12)),
                   (''transacted_at'', PInt 4000)]) ''id''"
    by (simp add: example_defs run_defs)
  show ?thesis
    using posted_coercion [OF ran later]
    by (simp add: example_defs run_defs)
qed

text \<open>
  Claim C4 as stated fails for an absent indicator: the record is not persisted with
  posted = false, the call raises \<^verbatim>\<open>KeyError('posted')\<close> and the table stays empty.
\<close>

theorem posted_absent_raises:
  "snd (update_transactions_table example_env (PStr ''A'') [txn_no_posted] usd_world)
     = Inl (KeyError ''posted'')
   \<and> transactions (store (fst
       (update_transactions_table example_env (PStr ''A'') [txn_no_posted] usd_world))) = []"
  by (simp add: example_defs run_defs)

text \<open>
  Claim C8. In a batch that the upsert persists, a record that omits the description,
  the payee or the memo has the empty string in that column of its row; and no record
  ever makes the upsert raise a KeyError for one of these three keys.
\<close>

theorem text_fields_default_empty:
  assumes "update_transactions_table e account_id (pre @ PDict d # post) w = (w', Inr n)"
    and "\<forall>u\<in>set post. getitem u ''id'' \<noteq> getitem (PDict d) ''id''"
  shows "(\<exists>tid row. map_of d ''id'' = Some tid
            \<and> map_of (transactions (store w')) tid = Some row
            \<and> (map_of d ''description'' = None \<longrightarrow> description row = PStr [])
            \<and> (map_of d ''payee'' = None \<longrightarrow> payee row = PStr [])
            \<and> (map_of d ''memo'' = None \<longrightarrow> memo row = PStr []))
       \<and> (\<forall>t. txn_params e account_id t \<noteq> Inl (KeyError ''description'')
             \<and> txn_params e account_id t \<noteq> Inl (KeyError ''payee'')
             \<and> txn_params e account_id t \<noteq> Inl (KeyError ''memo''))"
proof -
  from batch_persists [OF assms] obtain tid row where
    "map_of d ''id'' = Some tid" "map_of (transactions (store w')) tid = Some row"
    "description row = dict_get d ''description'' (PStr [])"
    "payee row = dict_get d ''payee'' (PStr [])"
    "memo row = dict_get d ''memo'' (PStr [])"
    by blast
  then have "\<exists>tid row. map_of d ''id'' = Some tid
            \<and> map_of (transactions (store w')) tid = Some row
            \<and> (map_of d ''description'' = None \<longrightarrow> description row = PStr [])
            \<and> (map_of d ''payee'' = None \<longrightarrow> payee row = PStr [])
            \<and> (map_of d ''memo'' = None \<longrightarrow> memo row = PStr [])"
    by (auto simp: dict_get_def)
  moreover have "txn_params e account_id t \<noteq> Inl (KeyError ''description'')
             \<and> txn_params e account_id t \<noteq> Inl (KeyError ''payee'')
             \<and> txn_params e account_id t \<noteq> Inl (KeyError ''memo'')" for t
    using txn_params_Inl [of e account_id t] by auto
  ultimately show ?thesis by blast
qed

text \<open>
  The lunch record names none of the three fields.
\<close>

theorem text_fields_default_empty_witness:
  "map (\<lambda>(k, r). (k, description r, payee r, memo r)) (transactions (store (fst
     (update_transactions_table example_env (PStr ''A'') [txn_lunch] usd_world))))
   = [(PStr ''t1'', PStr [], PStr [], PStr [])]"
proof -
  let ?w' = "fst (update_transactions_table example_env (PStr ''A'') [txn_lunch] usd_world)"
  have ran: "update_transactions_table example_env (PStr ''A'')
      ([] @ PDict [(''id'', PStr ''t1''), (''posted'', PInt 1), (''amount'', PInt (- 12)),
                   (''transacted_at'', PInt 4000)] # []) usd_world = (?w', Inr 1)"
    by (simp add: example_defs run_defs)
  have later: "\<forall>u\<in>set []. getitem u ''id'' \<noteq>
      getitem (PDict [(''id'', PStr ''t1''), (''posted'', PInt 1), (''amount'', PInt (- 12)),
                   (''transacted_at'', PInt 4000)]) ''id''"
    by simp
  show ?thesis
    using text_fields_default_empty [OF ran later]
    by (simp add: example_defs run_defs)
qed

text \<open>
  Claim C10. In a batch that the upsert persists, a record that omits the \<^verbatim>\<open>pending\<close>
  field has pending = false in its row; and no record ever makes the upsert raise a
  KeyError for that key.
\<close>

theorem pending_defaults_false:
  assumes "update_transactions_table e account_id (pre @ PDict d # post) w = (w', Inr n)"
    and "\<forall>u\<in>set post. getitem u ''id'' \<noteq> getitem (PDict d) ''id''"
    and "map_of d ''pending'' = None"
  shows "(\<exists>tid row. map_of d ''id'' = Some tid
            \<and> map_of (transactions (store w')) tid = Some row
            \<and> pending row = PBool False)
       \<and> (\<forall>t. txn_params e account_id t \<noteq> Inl (KeyError ''pending''))"
proof -
  from batch_persists [OF assms(1,2)] obtain tid row where
    "map_of d ''id'' = Some tid" "map_of (transactions (store w')) tid = Some row"
    "pending row = dict_get d ''pending'' (PBool False)"
    by blast
  with assms(3) have "\<exists>tid row. map_of d ''id'' = Some tid
            \<and> map_of (transactions (store w')) tid = Some row
            \<and> pending row = PBool False"
    by (auto simp: dict_get_def)
  moreover have "txn_params e account_id t \<noteq> Inl (KeyError ''pending'')" for t
    using txn_params_Inl [of e account_id t] by auto
  ultimately show ?thesis by blast
qed

text \<open>
  The coffee record is pending; the lunch record does not say.
\<close>

theorem pending_defaults_false_witness:
  "map (\<lambda>(k, r). (k, pending r)) (transactions (store (fst
     (update_transactions_table example_env (PStr ''A'') [txn_coffee, txn_lunch] usd_world))))
   = [(PStr ''t2'', PBool True), (PStr ''t1'', PBool False)]"
proof -
  let ?w' = "fst (update_transactions_table example_env (PStr ''A'')
                [txn_coffee, txn_lunch] usd_world)"
  have ran: "update_transactions_table example_env (PStr ''A'')
      ([txn_coffee] @ PDict [(''id'', PStr ''t1''), (''posted'', PInt 1),
          (''amount'', PInt (- 12)), (''transacted_at'', PInt 4000)] # []) usd_world
      = (?w', Inr 2)"
    by (simp add: example_defs run_defs)
  have later: "\<forall>u\<in>set []. getitem u ''id'' \<noteq>
      getitem (PDict [(''id'', PStr ''t1''), (''posted'', PInt 1), (''amount'', PInt (- 12)),
                   (''transacted_at'', PInt 4000)]) ''id''"
    by simp
  have omitted: "map_of [(''id'', PStr ''t1''), (''posted'', PInt 1), (''amount'', PInt (- 12)),
                   (''transacted_at'', PInt 4000)] ''pending'' = None"
    by simp
  show ?thesis
    using pending_defaults_false [OF ran later omitted]
    by (simp add: example_defs run_defs)
qed

text \<open>
  Claim C6. If a record of the batch fails to parse (the parameter tuple raises) or to
  insert (the server refuses its row whatever the tables hold), the transaction batch
  upsert raises, the committed tables are what they were before the call, and the
  connection is released. More generally every exception that leaves the batch upsert,
  whatever its cause, leaves the committed tables unchanged, and what the caller gets is
  what the loop raised or returned.
\<close>

theorem transaction_batch_atomic:
  assumes "t \<in> set txns"
    and "(\<exists>err. txn_params e account_id t = Inl err)
       \<or> (\<exists>args. txn_params e account_id t = Inr args
             \<and> (\<forall>c. \<exists>err. execute_txn_upsert e c args = Inl err))"
  shows "(\<exists>w' err. update_transactions_table e account_id txns w = (w', Inl err)
            \<and> store w' = store w \<and> live w' = live w)
       \<and> (\<forall>batch w' err. update_transactions_table e account_id batch w = (w', Inl err)
            \<longrightarrow> store w' = store w \<and> live w' = live w)
       \<and> (\<forall>batch. snd (update_transactions_table e account_id batch w)
            = snd (txn_loop e account_id batch (snd (connect e w)) 0))"
proof -
  from txn_loop_fails [OF assms] obtain c' err where
    "txn_loop e account_id txns \<lparr>work = store w, saved = store w, now = clock e (opened w)\<rparr> 0
       = (c', Inl err)"
    by blast
  then have "update_transactions_table e account_id txns w
      = (w\<lparr>opened := Suc (opened w)\<rparr>, Inl err)"
    by (simp add: update_transactions_table_eq)
  moreover have "store w' = store w \<and> live w' = live w"
    if "update_transactions_table e account_id batch w = (w', Inl err)" for batch w' err
    using that by (auto simp: update_transactions_table_eq split: prod.splits sum.splits)
  moreover have "snd (update_transactions_table e account_id batch w)
      = snd (txn_loop e account_id batch (snd (connect e w)) 0)" for batch
    by (simp add: update_transactions_table_eq connect_def split: prod.splits sum.splits)
  ultimately show ?thesis by auto
qed

text \<open>
  The lunch record is written to the working copy before the record without
  \<^verbatim>\<open>posted\<close> raises; the rollback removes it.
\<close>

theorem transaction_batch_atomic_witness:
  "update_transactions_table example_env (PStr ''A'') [txn_lunch, txn_no_posted] usd_world
     = (usd_world\<lparr>opened := 2\<rparr>, Inl (KeyError ''posted''))
   \<and> map fst (transactions (work (fst (txn_loop example_env (PStr ''A'')
        [txn_lunch, txn_no_posted] (snd (connect example_env usd_world)) 0)))) = [PStr ''t1'']"
proof -
  have member: "txn_no_posted \<in> set [txn_lunch, txn_no_posted]"
    by simp
  have fails: "(\<exists>err. txn_params example_env (PStr ''A'') txn_no_posted = Inl err)
       \<or> (\<exists>args. txn_params example_env (PStr ''A'') txn_no_posted = Inr args
             \<and> (\<forall>c. \<exists>err. execute_txn_upsert example_env c args = Inl err))"
    by (simp add: example_defs run_defs)
  show ?thesis
    using transaction_batch_atomic [OF member fails, of usd_world]
    by (simp add: example_defs run_defs connect_def)
qed

text \<open>
  Claim C5. On tables that keep the schema's keys (\<open>keys_hold\<close>: one account row per
  id, every transaction owned by an account row; the empty tables do, and every sync run
  keeps them so), the query returns, without changing the tables,
  exactly the transactions whose \<^verbatim>\<open>transacted_at\<close> falls on the calendar day before the
  current date of the call, each once and joined with the display name of its account, as
  flat records of account name, amount, description, payee, memo, transacted-at and
  pending flag, ordered by \<^verbatim>\<open>transacted_at\<close> descending.
\<close>

theorem todays_transactions_query:
  assumes "keys_hold (store w)"
  shows "\<exists>rows. get_todays_transactions e w = (w\<lparr>opened := Suc (opened w)\<rparr>, Inr rows)
       \<and> sorted_wrt (\<lambda>r r'. row_transacted_at r \<ge> row_transacted_at r') rows
       \<and> mset rows =
           mset (map (\<lambda>(tid, t).
                        select_row (the (map_of (accounts (store w)) (txn_account_id t))) t)
                   (filter (\<lambda>(tid, t). session_date e (transacted_at t)
                                          = session_date e (clock e (opened w)) - 1)
                      (transactions (store w))))"
proof -
  let ?c = "\<lparr>work = store w, saved = store w, now = clock e (opened w)\<rparr>"
  have run: "get_todays_transactions e w
      = (w\<lparr>opened := Suc (opened w)\<rparr>, Inr (select_todays e ?c))"
    by (simp add: get_todays_transactions_def get_db_def connect_def close_def commit_def)
  have "sorted (map (\<lambda>r. - row_transacted_at r) (select_todays e ?c))"
    by (simp add: select_todays_def)
  then have ordered: "sorted_wrt (\<lambda>r r'. row_transacted_at r \<ge> row_transacted_at r')
      (select_todays e ?c)"
    by (simp add: sorted_map)
  have rows: "mset (select_todays e ?c) =
      mset (map (\<lambda>(tid, t).
                   select_row (the (map_of (accounts (store w)) (txn_account_id t))) t)
              (filter (\<lambda>(tid, t). session_date e (transacted_at t)
                                     = session_date e (clock e (opened w)) - 1)
                 (transactions (store w))))"
    using select_todays_join [of ?c e] assms
    by (simp add: select_todays_def keys_hold_def references_account_def)
  from run ordered rows show ?thesis by blast
qed

text \<open>
  Asked on day 2, \<open>query_world\<close> gives the two transactions of day 1, the later one
  first, each with the name of its own account.
\<close>

theorem todays_transactions_query_witness:
  "snd (get_todays_transactions day_two_env query_world) =
     Inr [\<lparr>row_account_name = PStr ''Savings'', row_amount = 250,
           row_description = PStr ''Transfer'', row_payee = PStr [], row_memo = PStr [],
           row_transacted_at = 100000, row_pending = PBool False\<rparr>,
          \<lparr>row_account_name = PStr ''Checking'', row_amount = - 12,
           row_description = PStr ''Lunch'', row_payee = PStr ''Deli'', row_memo = PStr [],
           row_transacted_at = 90000, row_pending = PBool False\<rparr>]"
proof -
  have keys: "keys_hold (store query_world)"
    by (simp add: keys_hold_def references_account_def query_world_def txn_values_def)
  show ?thesis
    using todays_transactions_query [OF keys, of day_two_env]
    by (simp add: get_todays_transactions_def get_db_def connect_def close_def commit_def
        select_todays_def select_row_def query_world_def day_two_env_def example_env_def
        txn_values_def account_values_def)
qed

text \<open>
  Claim C1, as the code has it. For every account payload, applying the full sync twice
  in succession leaves the accounts and the snapshots as one application left them in
  every column but the \<^verbatim>\<open>NOW()\<close> stamps \<^verbatim>\<open>updated_at\<close> and \<^verbatim>\<open>snapshot_taken_at\<close>,
  and leaves the transactions table with the same ids in the same places, hence as many
  rows, as after the first application.
\<close>

theorem sync_twice:
  assumes "sync_account_from_api e p w = (w1, r1)"
    and "sync_account_from_api e p w1 = (w2, r2)"
  shows "map (\<lambda>(k, a). (k, acct_name a, acct_currency a, acct_balance a,
                          acct_available_balance a, acct_balance_date a))
           (accounts (store w2))
         = map (\<lambda>(k, a). (k, acct_name a, acct_currency a, acct_balance a,
                            acct_available_balance a, acct_balance_date a))
             (accounts (store w1))
       \<and> map (\<lambda>(k, s). (k, snap_balance s, snap_available_balance s))
           (account_snapshots (store w2))
         = map (\<lambda>(k, s). (k, snap_balance s, snap_available_balance s))
             (account_snapshots (store w1))
       \<and> map fst (transactions (store w2)) = map fst (transactions (store w1))
       \<and> length (transactions (store w2)) = length (transactions (store w1))"
proof -
  have w1: "w1 = fst (sync_account_from_api e p w)"
    and w2: "w2 = fst (sync_account_from_api e p w1)"
    using assms by simp_all
  show ?thesis
  proof (cases rule: sync_account_cases [of e p])
    case idle
    from idle [of w1] w2 show ?thesis by simp
  next
    case (runs aid name cur bal av bd ts)
    note t = sync_account_tables [OF runs]
    have accts: "map (\<lambda>(k, a). (k, acct_name a, acct_currency a, acct_balance a,
                          acct_available_balance a, acct_balance_date a))
           (accounts (store w2))
         = map (\<lambda>(k, a). (k, acct_name a, acct_currency a, acct_balance a,
                            acct_available_balance a, acct_balance_date a))
             (accounts (store w1))"
      unfolding w2 t(1) [of w1]
      unfolding w1 t(1) [of w]
      by (rule upsert_twice_columns) (simp_all add: account_set_def account_values_def)
    have snaps: "map (\<lambda>(k, s). (k, snap_balance s, snap_available_balance s))
           (account_snapshots (store w2))
         = map (\<lambda>(k, s). (k, snap_balance s, snap_available_balance s))
             (account_snapshots (store w1))"
    proof (cases "snapshots_ok e aid bal av ts")
      case True
      show ?thesis
        unfolding w2 t(2) [of w1]
        unfolding w1 t(2) [of w]
        using True
        by (simp add: upsert_twice_columns snapshot_set_def snapshot_values_def)
    next
      case False
      then show ?thesis
        unfolding w2 t(2) [of w1] by simp
    qed
    have txns: "map fst (transactions (store w2)) = map fst (transactions (store w1))"
    proof (cases "snapshots_ok e aid bal av ts")
      case True
      from t(3) [OF True, of w] obtain x where x: "references_account (store x) aid"
        and x_run: "transactions (store w1)
                      = transactions (store (fst (sync_transactions e aid p x)))"
        unfolding w1 by blast
      from t(3) [OF True, of w1] obtain y where y: "references_account (store y) aid"
        and y_same: "transactions (store y) = transactions (store w1)"
        and y_run: "transactions (store w2)
                      = transactions (store (fst (sync_transactions e aid p y)))"
        unfolding w2 by blast
      from sync_transactions_again [OF x y, of e p] y_same x_run y_run show ?thesis
        by simp
    next
      case False
      from t(4) [OF False, of w1] show ?thesis
        unfolding w2 by simp
    qed
    from txns have "length (transactions (store w2)) = length (transactions (store w1))"
      by (metis length_map)
    with accts snaps txns show ?thesis by simp
  qed
qed

text \<open>
  The payload of account A, applied twice to \<open>usd_world\<close>.
\<close>

theorem sync_twice_witness:
  "map fst (transactions (store (fst (sync_account_from_api example_env payload_a
       (fst (sync_account_from_api example_env payload_a usd_world))))))
     = [PStr ''t1'', PStr ''t2'']
   \<and> length (transactions (store (fst (sync_account_from_api example_env payload_a
       usd_world)))) = 2
   \<and> map (\<lambda>(k, a). (k, acct_name a, acct_currency a, acct_balance a,
                      acct_available_balance a, acct_balance_date a))
       (accounts (store (fst (sync_account_from_api example_env payload_a
          (fst (sync_account_from_api example_env payload_a usd_world))))))
     = [(PStr ''A'', PStr ''Checking'', PStr ''USD'', 100, 100, 5000)]
   \<and> map (\<lambda>(k, s). (k, snap_balance s, snap_available_balance s))
       (account_snapshots (store (fst (sync_account_from_api example_env payload_a
          (fst (sync_account_from_api example_env payload_a usd_world))))))
     = [((PStr ''A'', 5000), 100, 100)]"
proof -
  let ?w1 = "fst (sync_account_from_api example_env payload_a usd_world)"
  let ?w2 = "fst (sync_account_from_api example_env payload_a ?w1)"
  have once: "sync_account_from_api example_env payload_a usd_world = (?w1, Inr 4)"
    by (simp add: payload_a_once)
  have twice: "sync_account_from_api example_env payload_a ?w1 = (?w2, Inr 4)"
    by (simp add: payload_a_twice)
  show ?thesis
    using sync_twice [OF once twice]
    by (simp add: payload_a_once)
qed

text \<open>
  Claim C1 as stated fails on the stamp: account A stands in \<open>usd_world\<close>, so both
  applications take the DO UPDATE branch, and the row that the first leaves with
  \<^verbatim>\<open>updated_at\<close> = 1001 has 1004 after the second.
\<close>

theorem sync_twice_restamps:
  "map (updated_at \<circ> snd) (accounts (store (fst
      (sync_account_from_api example_env payload_a usd_world)))) = [Now 1001]
   \<and> map (updated_at \<circ> snd) (accounts (store (fst
      (sync_account_from_api example_env payload_a
         (fst (sync_account_from_api example_env payload_a usd_world)))))) = [Now 1004]
   \<and> accounts (store (fst (sync_account_from_api example_env payload_a
         (fst (sync_account_from_api example_env payload_a usd_world)))))
     \<noteq> accounts (store (fst (sync_account_from_api example_env payload_a usd_world)))"
  by (simp add: payload_a_twice) (simp add: payload_a_once)

text \<open>
  Claim C7, as the code has it. In a sync run over several accounts, a failure while
  syncing one account ends the run with that error: the accounts after it are not
  processed. What the accounts before it committed stays: the failing account changes
  no account row and no snapshot row of another account ID, and no transaction row at
  all.
\<close>

theorem sync_stops_at_first_failure:
  assumes "sync_all_accounts e [(''accounts'', PList before)] w = (w1, Inr ())"
    and "sync_account_from_api e failing w1 = (w2, Inl err)"
  shows "sync_all_accounts e [(''accounts'', PList (before @ failing # after))] w
           = (w2, Inl err)
       \<and> (\<forall>k. getitem failing ''id'' \<noteq> Inr k \<longrightarrow>
             map_of (accounts (store w2)) k = map_of (accounts (store w1)) k)
       \<and> (\<forall>k t. getitem failing ''id'' \<noteq> Inr k \<longrightarrow>
             map_of (account_snapshots (store w2)) (k, t)
               = map_of (account_snapshots (store w1)) (k, t))
       \<and> transactions (store w2) = transactions (store w1)"
proof -
  from assms(1) have "sync_loop e before w = (w1, Inr ())"
    by (simp add: sync_all_accounts_def dict_get_def items_of_def)
  with assms(2) have "sync_all_accounts e [(''accounts'', PList (before @ failing # after))] w
      = (w2, Inl err)"
    by (simp add: sync_all_accounts_def dict_get_def items_of_def sync_loop_append)
  moreover have w2: "w2 = fst (sync_account_from_api e failing w1)"
    using assms(2) by simp
  have "map_of (accounts (store w2)) k = map_of (accounts (store w1)) k"
    and "map_of (account_snapshots (store w2)) (k, t)
           = map_of (account_snapshots (store w1)) (k, t)"
    if "getitem failing ''id'' \<noteq> Inr k" for k t
    unfolding w2 using sync_account_other_rows [OF that, of e w1 t] by simp_all
  moreover note sync_account_Inl_transactions [OF assms(2)]
  ultimately show ?thesis by blast
qed

text \<open>
  Account A, then account B whose batch raises, then account A again: the run ends after
  six connections with B's error; A's rows and transactions are committed.
\<close>

theorem sync_stops_at_first_failure_witness:
  "snd (sync_all_accounts example_env
          [(''accounts'', PList ([payload_a] @ payload_b # [payload_a]))] fresh_world)
     = Inl (KeyError ''posted'')
   \<and> map fst (accounts (store (fst (sync_all_accounts example_env
          [(''accounts'', PList ([payload_a] @ payload_b # [payload_a]))] fresh_world))))
     = [PStr ''A'', PStr ''B'']
   \<and> map fst (transactions (store (fst (sync_all_accounts example_env
          [(''accounts'', PList ([payload_a] @ payload_b # [payload_a]))] fresh_world))))
     = [PStr ''t1'', PStr ''t2'']
   \<and> opened (fst (sync_all_accounts example_env
          [(''accounts'', PList ([payload_a] @ payload_b # [payload_a]))] fresh_world)) = 6"
proof -
  let ?w1 = "fst (sync_account_from_api example_env payload_a fresh_world)"
  let ?w2 = "fst (sync_account_from_api example_env payload_b ?w1)"
  have before: "sync_all_accounts example_env [(''accounts'', PList [payload_a])] fresh_world
      = (?w1, Inr ())"
    by (simp add: sync_all_accounts_def dict_get_def items_of_def payload_a_fresh)
  have fails: "sync_account_from_api example_env payload_b ?w1
      = (?w2, Inl (KeyError ''posted''))"
    by (simp add: payload_b_after_a)
  note run = sync_stops_at_first_failure [OF before fails, of "[payload_a]", THEN conjunct1]
  show ?thesis
    unfolding run by (simp add: payload_b_after_a)
qed

text \<open>
  Claim C7 as stated fails for an account that comes after the failing one: with B
  first, the run raises before it reaches A, whose payload syncs without error on its
  own, and A has no row.
\<close>

theorem sync_skips_accounts_after_failure:
  "snd (sync_all_accounts example_env [(''accounts'', PList [payload_b, payload_a])]
          fresh_world) = Inl (KeyError ''posted'')
   \<and> map fst (accounts (store (fst (sync_all_accounts example_env
          [(''accounts'', PList [payload_b, payload_a])] fresh_world)))) = [PStr ''B'']
   \<and> snd (sync_account_from_api example_env payload_a fresh_world) = Inr 4"
  by (simp add: sync_all_accounts_def dict_get_def payload_a_fresh)
    (simp add: payload_b_def sync_defs example_defs run_defs fresh_world_def empty_db_def)

end
